theory Spec2Isabelle
  imports Main
begin

section \<open>Data model of the dependency-injection container\<close>

text \<open>
  The repository holds three copies of the container: \<^verbatim>\<open>src/di.ts\<close>, \<^verbatim>\<open>src/test.ts\<close>
  and an annotated copy of \<^verbatim>\<open>di.ts\<close>.  They share everything but \<^verbatim>\<open>instantiate\<close>,
  \<^verbatim>\<open>resolve\<close> and one string of \<^verbatim>\<open>tokenToString\<close>; the development models the
  shared part once and these three functions once per copy.

  JavaScript values are primitives or references into an object heap; identity of
  instances (\<^verbatim>\<open>===\<close>) is equality of values, so of addresses for objects.  An object
  has the class that \<^verbatim>\<open>instance.constructor\<close> yields, its own data properties with their
  attributes, and its extensibility.  Callable instances and accessor properties are
  left out.
\<close>

type_synonym addr = nat

datatype jsval = JUndefined | JNull | JBool bool | JNum int | JStr string | JRef addr

text \<open>
  \<^verbatim>\<open>Token = symbol | string | constructor\<close>.  A symbol is identified by a number and
  carries its optional description; a constructor used as a token is the number of its
  class in the class table.
\<close>

datatype token = TString string | TSymbol nat "string option" | TClass nat

datatype Scope = Singleton | Transient

datatype propkey = KString string | KSymbol nat

record property =
  pvalue :: jsval
  configurable :: bool
  enumerable :: bool
  writable :: bool

record obj =
  constructor_id :: nat
  props :: "propkey \<rightharpoonup> property"
  extensible :: bool

record heap =
  objs :: "addr \<Rightarrow> obj"
  fresh :: addr

text \<open>
  What a factory function hands back: a value it already has (a primitive, one of its
  arguments, a captured reference), or a newly allocated object of a class with the
  given own fields.
\<close>

datatype made = Existing jsval | Fresh nat "(propkey \<times> jsval) list"

text \<open>
  A provider object as \<^verbatim>\<open>register\<close> receives it: every field of the three interfaces
  may be present or absent.  \<^verbatim>\<open>useValue\<close> absent is \<^verbatim>\<open>undefined\<close>.
\<close>

record provider =
  token :: "token option"
  scope :: "Scope option"
  useClass :: "nat option"
  useValue :: jsval
  useFactory :: "(jsval list \<Rightarrow> string + made) option"
  deps :: "token list option"

text \<open>
  A container: \<^verbatim>\<open>providers\<close> and \<^verbatim>\<open>singletons\<close> are the two \<^verbatim>\<open>Map\<close>s, the
  second keyed by \<^verbatim>\<open>provider.token\<close>; \<^verbatim>\<open>parent\<close> is the number of the parent container.
\<close>

record container =
  providers :: "token \<rightharpoonup> provider"
  singletons :: "token option \<rightharpoonup> jsval"
  parent :: "nat option"

record state =
  store :: heap
  conts :: "nat \<Rightarrow> container"
  next_container :: nat
  propertyInjections :: "nat \<rightharpoonup> (propkey \<times> token) list"

datatype error =
    ResolutionError string
  | CircularDependencyError string
  | ProviderNotFoundError string
  | TypeError
  | UserError string

text \<open>
  A call returns a value, throws, or does not come back within the recursion budget.
  A throw keeps the state reached so far: JavaScript does not roll mutations back.
\<close>

datatype 'a outcome = Returns 'a state | Throws error state | OutOfFuel

fun andThen :: "'a outcome \<Rightarrow> ('a \<Rightarrow> state \<Rightarrow> 'b outcome) \<Rightarrow> 'b outcome" where
  "andThen (Returns x s) f = f x s"
| "andThen (Throws e s) f = Throws e s"
| "andThen OutOfFuel f = OutOfFuel"

text \<open>
  User code.  A class has a name, an optional static \<^verbatim>\<open>inject\<close> array, a constructor
  body and an optional \<^verbatim>\<open>onInit\<close> method.  The constructor body sees its arguments and
  the heap; it throws, or assigns own fields to \<^verbatim>\<open>this\<close> and returns a value
  (\<^verbatim>\<open>undefined\<close> when it has no \<^verbatim>\<open>return\<close>).  The method inspects \<^verbatim>\<open>this\<close> and the
  heap and then returns, throws, or calls \<^verbatim>\<open>resolve\<close> on a container and returns.
  User code that writes to existing objects or registers providers is left out, and so is
  an \<^verbatim>\<open>onInit\<close> that is an own property of a plain object.
\<close>

datatype hook_step = HReturn | HThrow string | HResolve nat token

record class_def =
  cname :: "string option"
  inject :: "token list option"
  construct :: "jsval list \<Rightarrow> heap \<Rightarrow> string + ((propkey \<times> jsval) list \<times> jsval)"
  onInit :: "(addr \<Rightarrow> heap \<Rightarrow> hook_step) option"

type_synonym classes = "nat \<Rightarrow> class_def"

type_synonym resolver = "nat \<Rightarrow> token \<Rightarrow> token list \<Rightarrow> state \<Rightarrow> jsval outcome"

section \<open>Helpers\<close>

fun truthy :: "jsval \<Rightarrow> bool" where
  "truthy JUndefined = False"
| "truthy JNull = False"
| "truthy (JBool b) = b"
| "truthy (JNum n) = (n \<noteq> 0)"
| "truthy (JStr s) = (s \<noteq> [])"
| "truthy (JRef a) = True"

fun typeof :: "jsval \<Rightarrow> string" where
  "typeof JUndefined = ''undefined''"
| "typeof JNull = ''object''"
| "typeof (JBool b) = ''boolean''"
| "typeof (JNum n) = ''number''"
| "typeof (JStr s) = ''string''"
| "typeof (JRef a) = ''object''"

fun join :: "string \<Rightarrow> string list \<Rightarrow> string" where
  "join sep [] = []"
| "join sep [x] = x"
| "join sep (x # y # ys) = x @ sep @ join sep (y # ys)"

fun tokenToString :: "classes \<Rightarrow> token \<Rightarrow> string" where
  "tokenToString K (TString s) = s"
| "tokenToString K (TSymbol i d) = (case d of Some x \<Rightarrow> x | None \<Rightarrow> ''Symbol()'')"
| "tokenToString K (TClass k) = (case cname (K k) of Some n \<Rightarrow> n | None \<Rightarrow> ''[AnonymousClass]'')"

definition isClassProvider :: "provider \<Rightarrow> bool" where
  "isClassProvider p = (useClass p \<noteq> None)"

definition isValueProvider :: "provider \<Rightarrow> bool" where
  "isValueProvider p = (useValue p \<noteq> JUndefined)"

definition isFactoryProvider :: "provider \<Rightarrow> bool" where
  "isFactoryProvider p = (useFactory p \<noteq> None)"

definition Inject :: "token \<Rightarrow> nat \<Rightarrow> propkey \<Rightarrow> state \<Rightarrow> state" where
  "Inject tok ctor propertyKey s =
     (let list = (case propertyInjections s ctor of Some l \<Rightarrow> l | None \<Rightarrow> [])
      in s\<lparr>propertyInjections := (propertyInjections s)(ctor \<mapsto> list @ [(propertyKey, tok)])\<rparr>)"

section \<open>The heap\<close>

definition data_property :: "jsval \<Rightarrow> property" where
  "data_property v = \<lparr>pvalue = v, configurable = True, enumerable = True, writable = True\<rparr>"

definition assign_fields :: "(propkey \<times> jsval) list \<Rightarrow> propkey \<rightharpoonup> property" where
  "assign_fields fs = foldl (\<lambda>m (k, v). m(k \<mapsto> data_property v)) Map.empty fs"

definition new_object :: "nat \<Rightarrow> (propkey \<times> jsval) list \<Rightarrow> state \<Rightarrow> jsval outcome" where
  "new_object k fs s =
     (let h = store s; a = fresh h;
          ob = \<lparr>constructor_id = k, props = assign_fields fs, extensible = True\<rparr>
      in Returns (JRef a) (s\<lparr>store := h\<lparr>objs := (objs h)(a := ob), fresh := Suc a\<rparr>\<rparr>))"

text \<open>
  \<^verbatim>\<open>new Ctor(...args)\<close>: the constructor body runs on a new object; the expression
  yields the object the body returns, if it returns one, and the new object otherwise.
\<close>

fun is_object :: "jsval \<Rightarrow> bool" where
  "is_object (JRef a) = True"
| "is_object v = False"

definition construct_new :: "classes \<Rightarrow> nat \<Rightarrow> jsval list \<Rightarrow> state \<Rightarrow> jsval outcome" where
  "construct_new K Ctor args s =
     (case construct (K Ctor) args (store s) of
        Inl msg \<Rightarrow> Throws (UserError msg) s
      | Inr (fs, r) \<Rightarrow>
          andThen (new_object Ctor fs s) (\<lambda>this s1. Returns (if is_object r then r else this) s1))"

definition call_factory :: "(jsval list \<Rightarrow> string + made) \<Rightarrow> jsval list \<Rightarrow> state \<Rightarrow> jsval outcome" where
  "call_factory f args s =
     (case f args of
        Inl msg \<Rightarrow> Throws (UserError msg) s
      | Inr (Existing v) \<Rightarrow> Returns v s
      | Inr (Fresh k fs) \<Rightarrow> new_object k fs s)"

text \<open>
  \<^verbatim>\<open>Object.defineProperty\<close> with a full data descriptor: a new key needs an extensible
  object, a configurable property is replaced, a non-configurable one only accepts a
  compatible descriptor.
\<close>

definition defineProperty :: "addr \<Rightarrow> propkey \<Rightarrow> property \<Rightarrow> state \<Rightarrow> unit outcome" where
  "defineProperty a key desc s =
     (let h = store s; ob = objs h a;
          written = s\<lparr>store := h\<lparr>objs := (objs h)(a := ob\<lparr>props := (props ob)(key \<mapsto> desc)\<rparr>)\<rparr>\<rparr>
      in case props ob key of
           None \<Rightarrow> if extensible ob then Returns () written else Throws TypeError s
         | Some cur \<Rightarrow>
             if configurable cur then Returns () written
             else if configurable desc \<or> enumerable desc \<noteq> enumerable cur
                     \<or> (\<not> writable cur \<and> (writable desc \<or> pvalue desc \<noteq> pvalue cur))
                  then Throws TypeError s
                  else Returns () written)"

section \<open>Registration and the container chain\<close>

definition truthy_token :: "token option \<Rightarrow> bool" where
  "truthy_token t = (case t of None \<Rightarrow> False | Some (TString x) \<Rightarrow> x \<noteq> [] | Some _ \<Rightarrow> True)"

definition setProvider :: "nat \<Rightarrow> provider option \<Rightarrow> state \<Rightarrow> unit outcome" where
  "setProvider c p s =
     (case p of
        None \<Rightarrow> Throws (ResolutionError ''Invalid provider: missing token'') s
      | Some pr \<Rightarrow>
          if \<not> truthy_token (token pr)
          then Throws (ResolutionError ''Invalid provider: missing token'') s
          else Returns ()
                 (s\<lparr>conts := (conts s)(c := (conts s c)
                       \<lparr>providers := (providers (conts s c))(the (token pr) \<mapsto> pr)\<rparr>)\<rparr>))"

fun register :: "nat \<Rightarrow> provider option list \<Rightarrow> state \<Rightarrow> nat outcome" where
  "register c [] s = Returns c s"
| "register c (p # ps) s = andThen (setProvider c p s) (\<lambda>_ s1. register c ps s1)"

definition new_Container :: "nat option \<Rightarrow> state \<Rightarrow> nat \<times> state" where
  "new_Container par s =
     (next_container s,
      s\<lparr>conts := (conts s)(next_container s :=
              \<lparr>providers = Map.empty, singletons = Map.empty, parent = par\<rparr>),
        next_container := Suc (next_container s)\<rparr>)"

definition createChild :: "nat \<Rightarrow> state \<Rightarrow> nat \<times> state" where
  "createChild c s = new_Container (Some c) s"

text \<open>
  Containers are numbered in creation order, and the constructor can only be given a
  container that exists already, so a parent's number is below its child's; the walk
  up the chain stops there.
\<close>

function getProvider :: "state \<Rightarrow> nat \<Rightarrow> token \<Rightarrow> provider option" where
  "getProvider s c tok =
     (if providers (conts s c) tok \<noteq> None then providers (conts s c) tok
      else case parent (conts s c) of
             None \<Rightarrow> None
           | Some p \<Rightarrow> if p < c then getProvider s p tok else None)"
  by pat_completeness auto
termination
  by (relation "measure (\<lambda>(s, c, tok). c)") auto

declare getProvider.simps [simp del]

section \<open>Resolution, as in di.ts\<close>

text \<open>\<^verbatim>\<open>deps.map((dep) => this.resolve(dep, stack))\<close>\<close>

fun resolve_deps :: "(token \<Rightarrow> state \<Rightarrow> jsval outcome) \<Rightarrow> token list \<Rightarrow> state \<Rightarrow> jsval list outcome" where
  "resolve_deps R [] s = Returns [] s"
| "resolve_deps R (dep # ds) s =
     andThen (R dep s) (\<lambda>v s1. andThen (resolve_deps R ds s1) (\<lambda>vs s2. Returns (v # vs) s2))"

definition instantiate :: "classes \<Rightarrow> resolver \<Rightarrow> nat \<Rightarrow> provider \<Rightarrow> token list \<Rightarrow> state \<Rightarrow> jsval outcome" where
  "instantiate K R this provider stack s =
     (if isClassProvider provider then
        (let Ctor = the (useClass provider);
             ds = (case inject (K Ctor) of Some l \<Rightarrow> l | None \<Rightarrow> [])
         in andThen (resolve_deps (\<lambda>dep. R this dep stack) ds s) (construct_new K Ctor))
      else if isFactoryProvider provider then
        (let ds = (case deps provider of Some l \<Rightarrow> l | None \<Rightarrow> [])
         in andThen (resolve_deps (\<lambda>dep. R this dep stack) ds s)
              (call_factory (the (useFactory provider))))
      else if isValueProvider provider then Returns (useValue provider) s
      else Returns JUndefined s)"

fun inject_each :: "(token \<Rightarrow> state \<Rightarrow> jsval outcome) \<Rightarrow> addr \<Rightarrow> (propkey \<times> token) list \<Rightarrow> state \<Rightarrow> unit outcome" where
  "inject_each R a [] s = Returns () s"
| "inject_each R a ((key, tok) # rest) s =
     andThen (R tok s) (\<lambda>v s1.
       andThen (defineProperty a key
                  \<lparr>pvalue = v, configurable = True, enumerable = True, writable = True\<rparr> s1)
         (\<lambda>_ s2. inject_each R a rest s2))"

definition applyPropertyInjections :: "resolver \<Rightarrow> nat \<Rightarrow> jsval \<Rightarrow> state \<Rightarrow> unit outcome" where
  "applyPropertyInjections R this instance s =
     (if \<not> truthy instance \<or> typeof instance \<noteq> ''object'' then Returns () s
      else case instance of
             JRef a \<Rightarrow>
               (let ctor = constructor_id (objs (store s) a);
                    list = (case propertyInjections s ctor of Some l \<Rightarrow> l | None \<Rightarrow> [])
                in inject_each (\<lambda>tok. R this tok []) a list s)
           | _ \<Rightarrow> Returns () s)"

text \<open>
  \<^verbatim>\<open>if (typeof instance?.onInit === "function") instance.onInit()\<close>: only an object
  whose class defines the method has one; its result is dropped.
\<close>

definition call_onInit :: "classes \<Rightarrow> resolver \<Rightarrow> jsval \<Rightarrow> state \<Rightarrow> unit outcome" where
  "call_onInit K R instance s =
     (case instance of
        JRef a \<Rightarrow>
          (case onInit (K (constructor_id (objs (store s) a))) of
             None \<Rightarrow> Returns () s
           | Some hook \<Rightarrow>
               (case hook a (store s) of
                  HReturn \<Rightarrow> Returns () s
                | HThrow msg \<Rightarrow> Throws (UserError msg) s
                | HResolve c tok \<Rightarrow> andThen (R c tok [] s) (\<lambda>_ s1. Returns () s1)))
      | _ \<Rightarrow> Returns () s)"

text \<open>
  \<^verbatim>\<open>resolve\<close> calls itself through \<^verbatim>\<open>instantiate\<close>, \<^verbatim>\<open>applyPropertyInjections\<close> and
  \<^verbatim>\<open>onInit\<close>, and nothing bounds the nesting (a class may inject its own token into a
  field).  The number after the class table bounds the depth of nested calls;
  \<open>OutOfFuel\<close> is a call that does not come back within it.  The three functions above
  take the recursive call as their argument \<open>R\<close>.
\<close>

primrec resolve :: "classes \<Rightarrow> nat \<Rightarrow> resolver" where
  "resolve K 0 = (\<lambda>this tok stack s. OutOfFuel)"
| "resolve K (Suc n) = (\<lambda>this tok stack s.
     if tok \<in> set stack then
       Throws (CircularDependencyError
                 (''Circular dependency detected: '' @ join '' -> '' (map (tokenToString K) (stack @ [tok])))) s
     else case getProvider s this tok of
       None \<Rightarrow> Throws (ProviderNotFoundError (''No provider for token: '' @ tokenToString K tok)) s
     | Some provider \<Rightarrow>
         (let sc = (case scope provider of Some x \<Rightarrow> x | None \<Rightarrow> Singleton)
          in if sc = Singleton \<and> singletons (conts s this) (token provider) \<noteq> None
             then Returns (the (singletons (conts s this) (token provider))) s
             else andThen (instantiate K (resolve K n) this provider (stack @ [tok]) s) (\<lambda>instance s1.
                  andThen (applyPropertyInjections (resolve K n) this instance s1) (\<lambda>_ s2.
                  andThen (call_onInit K (resolve K n) instance s2) (\<lambda>_ s3.
                  Returns instance s3)))))"


section \<open>Resolution, as in the annotated copy of di.ts\<close>

text \<open>
  The annotated copy differs from \<^verbatim>\<open>src/di.ts\<close> in two places: \<^verbatim>\<open>instantiate\<close> ends
  in \<^verbatim>\<open>throw new ResolutionError("Unknown provider type")\<close>, and \<^verbatim>\<open>resolve\<close> stores
  a Singleton instance in \<^verbatim>\<open>this.singletons\<close> before returning it.
\<close>

definition instantiate_part000 :: "classes \<Rightarrow> resolver \<Rightarrow> nat \<Rightarrow> provider \<Rightarrow> token list \<Rightarrow> state \<Rightarrow> jsval outcome" where
  "instantiate_part000 K R this provider stack s =
     (if isClassProvider provider then
        (let Ctor = the (useClass provider);
             ds = (case inject (K Ctor) of Some l \<Rightarrow> l | None \<Rightarrow> [])
         in andThen (resolve_deps (\<lambda>dep. R this dep stack) ds s) (construct_new K Ctor))
      else if isFactoryProvider provider then
        (let ds = (case deps provider of Some l \<Rightarrow> l | None \<Rightarrow> [])
         in andThen (resolve_deps (\<lambda>dep. R this dep stack) ds s)
              (call_factory (the (useFactory provider))))
      else if isValueProvider provider then Returns (useValue provider) s
      else Throws (ResolutionError ''Unknown provider type'') s)"

definition cache_store :: "nat \<Rightarrow> token option \<Rightarrow> jsval \<Rightarrow> state \<Rightarrow> state" where
  "cache_store this key instance s =
     s\<lparr>conts := (conts s)(this := (conts s this)
          \<lparr>singletons := (singletons (conts s this))(key \<mapsto> instance)\<rparr>)\<rparr>"

primrec resolve_part000 :: "classes \<Rightarrow> nat \<Rightarrow> resolver" where
  "resolve_part000 K 0 = (\<lambda>this tok stack s. OutOfFuel)"
| "resolve_part000 K (Suc n) = (\<lambda>this tok stack s.
     if tok \<in> set stack then
       Throws (CircularDependencyError
                 (''Circular dependency detected: '' @ join '' -> '' (map (tokenToString K) (stack @ [tok])))) s
     else case getProvider s this tok of
       None \<Rightarrow> Throws (ProviderNotFoundError (''No provider for token: '' @ tokenToString K tok)) s
     | Some provider \<Rightarrow>
         (let sc = (case scope provider of Some x \<Rightarrow> x | None \<Rightarrow> Singleton)
          in if sc = Singleton \<and> singletons (conts s this) (token provider) \<noteq> None
             then Returns (the (singletons (conts s this) (token provider))) s
             else andThen (instantiate_part000 K (resolve_part000 K n) this provider (stack @ [tok]) s) (\<lambda>instance s1.
                  andThen (applyPropertyInjections (resolve_part000 K n) this instance s1) (\<lambda>_ s2.
                  andThen (call_onInit K (resolve_part000 K n) instance s2) (\<lambda>_ s3.
                  Returns instance
                    (if sc = Singleton then cache_store this (token provider) instance s3 else s3))))))"

section \<open>Resolution, as in test.ts\<close>

text \<open>
  \<^verbatim>\<open>test.ts\<close> tries the value provider before the factory provider, falls off the end
  of \<^verbatim>\<open>instantiate\<close>, reads a cache hit with \<^verbatim>\<open>this.singletons.get(token)\<close>, and has
  its own placeholder for a class without a name.
\<close>

fun tokenToString_test :: "classes \<Rightarrow> token \<Rightarrow> string" where
  "tokenToString_test K (TString s) = s"
| "tokenToString_test K (TSymbol i d) = (case d of Some x \<Rightarrow> x | None \<Rightarrow> ''Symbol()'')"
| "tokenToString_test K (TClass k) = (case cname (K k) of Some n \<Rightarrow> n | None \<Rightarrow> ''[AnonymousClass'')"

definition instantiate_test :: "classes \<Rightarrow> resolver \<Rightarrow> nat \<Rightarrow> provider \<Rightarrow> token list \<Rightarrow> state \<Rightarrow> jsval outcome" where
  "instantiate_test K R this provider stack s =
     (if isClassProvider provider then
        (let Ctor = the (useClass provider);
             ds = (case inject (K Ctor) of Some l \<Rightarrow> l | None \<Rightarrow> [])
         in andThen (resolve_deps (\<lambda>dep. R this dep stack) ds s) (construct_new K Ctor))
      else if isValueProvider provider then Returns (useValue provider) s
      else if isFactoryProvider provider then
        (let ds = (case deps provider of Some l \<Rightarrow> l | None \<Rightarrow> [])
         in andThen (resolve_deps (\<lambda>dep. R this dep stack) ds s)
              (call_factory (the (useFactory provider))))
      else Returns JUndefined s)"

primrec resolve_test :: "classes \<Rightarrow> nat \<Rightarrow> resolver" where
  "resolve_test K 0 = (\<lambda>this tok stack s. OutOfFuel)"
| "resolve_test K (Suc n) = (\<lambda>this tok stack s.
     if tok \<in> set stack then
       Throws (CircularDependencyError
                 (''Circular dependency detected: '' @ join '' -> '' (map (tokenToString_test K) (stack @ [tok])))) s
     else case getProvider s this tok of
       None \<Rightarrow> Throws (ProviderNotFoundError (''No provider for token: '' @ tokenToString_test K tok)) s
     | Some provider \<Rightarrow>
         (let sc = (case scope provider of Some x \<Rightarrow> x | None \<Rightarrow> Singleton)
          in if sc = Singleton \<and> singletons (conts s this) (token provider) \<noteq> None
             then Returns (case singletons (conts s this) (Some tok) of Some v \<Rightarrow> v | None \<Rightarrow> JUndefined) s
             else andThen (instantiate_test K (resolve_test K n) this provider (stack @ [tok]) s) (\<lambda>instance s1.
                  andThen (applyPropertyInjections (resolve_test K n) this instance s1) (\<lambda>_ s2.
                  andThen (call_onInit K (resolve_test K n) instance s2) (\<lambda>_ s3.
                  Returns instance
                    (if sc = Singleton then cache_store this (token provider) instance s3 else s3))))))"

section \<open>Reading outcomes\<close>

fun returned :: "'a outcome \<Rightarrow> 'a option" where
  "returned (Returns x s) = Some x"
| "returned (Throws e s) = None"
| "returned OutOfFuel = None"

fun thrown :: "'a outcome \<Rightarrow> error option" where
  "thrown (Returns x s) = None"
| "thrown (Throws e s) = Some e"
| "thrown OutOfFuel = None"

fun final_state :: "'a outcome \<Rightarrow> state option" where
  "final_state (Returns x s) = Some s"
| "final_state (Throws e s) = Some s"
| "final_state OutOfFuel = None"

section \<open>Predicates for the statements\<close>

text \<open>The test \<^verbatim>\<open>resolve\<close> makes before it returns a cached instance.\<close>

definition cache_hit :: "state \<Rightarrow> nat \<Rightarrow> provider \<Rightarrow> bool" where
  "cache_hit s this provider =
     ((case scope provider of Some x \<Rightarrow> x | None \<Rightarrow> Singleton) = Singleton
      \<and> singletons (conts s this) (token provider) \<noteq> None)"

text \<open>
  Relations between the state before a call and the state after it.  The heap is written
  in two ways only, by allocating at \<^verbatim>\<open>fresh\<close> and by defining a property, and
  neither changes the class of an object that exists; \<open>same_classes\<close> says so of two
  heaps.  A relation that is reflexive, transitive and indifferent to such heap writes is
  kept by every step of a resolution once the recursive calls keep it.
  \<open>only_heap_grew\<close> is what \<^verbatim>\<open>src/di.ts\<close> keeps: no container changes at all.
  \<open>registry_kept\<close> is what the copies that write the cache keep: provider tables and
  parents.
\<close>

definition same_classes :: "heap \<Rightarrow> heap \<Rightarrow> bool" where
  "same_classes h h' =
     (fresh h \<le> fresh h' \<and> (\<forall>a. a < fresh h \<longrightarrow> constructor_id (objs h' a) = constructor_id (objs h a)))"

definition closed_rel :: "(state \<Rightarrow> state \<Rightarrow> bool) \<Rightarrow> bool" where
  "closed_rel Q = ((\<forall>s. Q s s) \<and> (\<forall>a b c. Q a b \<longrightarrow> Q b c \<longrightarrow> Q a c)
                   \<and> (\<forall>s h. same_classes (store s) h \<longrightarrow> Q s (s\<lparr>store := h\<rparr>)))"

definition within :: "(state \<Rightarrow> state \<Rightarrow> bool) \<Rightarrow> state \<Rightarrow> 'a outcome \<Rightarrow> bool" where
  "within Q s r = (case final_state r of None \<Rightarrow> True | Some s' \<Rightarrow> Q s s')"

definition keeps :: "(state \<Rightarrow> state \<Rightarrow> bool) \<Rightarrow> resolver \<Rightarrow> bool" where
  "keeps Q R = (\<forall>c t st s. within Q s (R c t st s))"

definition only_heap_grew :: "state \<Rightarrow> state \<Rightarrow> bool" where
  "only_heap_grew s s' = (conts s' = conts s \<and> next_container s' = next_container s
      \<and> propertyInjections s' = propertyInjections s \<and> same_classes (store s) (store s'))"

definition registry_kept :: "state \<Rightarrow> state \<Rightarrow> bool" where
  "registry_kept s s' = ((\<lambda>c. providers (conts s' c)) = (\<lambda>c. providers (conts s c))
      \<and> (\<lambda>c. parent (conts s' c)) = (\<lambda>c. parent (conts s c))
      \<and> next_container s' = next_container s
      \<and> propertyInjections s' = propertyInjections s \<and> same_classes (store s) (store s'))"

text \<open>
  For the copies that write the cache: a provider table is keyed when every provider sits
  under its own token, as \<^verbatim>\<open>setProvider\<close> puts it; and a resolution changes a cache
  entry only where there was none, under the token of a provider that is not Transient.
\<close>

definition keyed :: "state \<Rightarrow> bool" where
  "keyed s = (\<forall>c t p. providers (conts s c) t = Some p \<longrightarrow> token p = Some t)"

definition cached_for_singletons :: "state \<Rightarrow> state \<Rightarrow> bool" where
  "cached_for_singletons s s' =
     (registry_kept s s'
      \<and> (\<forall>c k. singletons (conts s' c) k \<noteq> singletons (conts s c) k \<longrightarrow>
             singletons (conts s c) k = None
             \<and> (\<exists>t p. getProvider s c t = Some p \<and> token p = k \<and> scope p \<noteq> Some Transient)))"

text \<open>A constructor that never returns an object of its own: \<^verbatim>\<open>new\<close> yields the new object.\<close>

definition ordinary_constructor :: "class_def \<Rightarrow> bool" where
  "ordinary_constructor cd =
     (\<forall>args h fs r. construct cd args h = Inr (fs, r) \<longrightarrow> \<not> is_object r)"

text \<open>A provider whose scope is Singleton, by declaration or by default.\<close>

definition singleton_scoped :: "provider \<Rightarrow> bool" where
  "singleton_scoped p = ((case scope p of Some x \<Rightarrow> x | None \<Rightarrow> Singleton) = Singleton)"

text \<open>
  The three copies of \<^verbatim>\<open>resolve\<close> (\<^verbatim>\<open>src/di.ts\<close>, the annotated copy, \<^verbatim>\<open>test.ts\<close>),
  and the two of them that write the cache.
\<close>

definition copies :: "(classes \<Rightarrow> nat \<Rightarrow> resolver) list" where
  "copies = [resolve, resolve_part000, resolve_test]"

definition caching_copies :: "(classes \<Rightarrow> nat \<Rightarrow> resolver) list" where
  "caching_copies = [resolve_part000, resolve_test]"




section \<open>A small program to run the container on\<close>

definition empty_container :: container where
  "empty_container = \<lparr>providers = Map.empty, singletons = Map.empty, parent = None\<rparr>"

definition plain_object :: obj where
  "plain_object = \<lparr>constructor_id = 0, props = Map.empty, extensible = True\<rparr>"

text \<open>One root container, number 0, nothing registered, nothing allocated.\<close>

definition root_state :: state where
  "root_state = \<lparr>store = \<lparr>objs = (\<lambda>_. plain_object), fresh = 0\<rparr>,
                  conts = (\<lambda>_. empty_container), next_container = 1,
                  propertyInjections = Map.empty\<rparr>"

text \<open>The classes; a class is known by its number in \<open>demo\<close>.\<close>

definition object_class :: class_def where
  "object_class = \<lparr>cname = Some ''Object'', inject = None, construct = (\<lambda>_ _. Inr ([], JUndefined)), onInit = None\<rparr>"

definition A_class :: class_def where
  "A_class = \<lparr>cname = Some ''A'', inject = Some [TClass 2], construct = (\<lambda>_ _. Inr ([], JUndefined)), onInit = None\<rparr>"

definition B_class :: class_def where
  "B_class = \<lparr>cname = Some ''B'', inject = Some [TClass 1], construct = (\<lambda>_ _. Inr ([], JUndefined)), onInit = None\<rparr>"

definition ConsoleLogger :: class_def where
  "ConsoleLogger = \<lparr>cname = Some ''ConsoleLogger'', inject = None, construct = (\<lambda>_ _. Inr ([], JUndefined)), onInit = None\<rparr>"

definition Logger :: token where
  "Logger = TSymbol 0 (Some ''Logger'')"

text \<open>
  \<^verbatim>\<open>Greeter\<close> takes the logger as constructor argument and keeps it in a field; it
  has an \<^verbatim>\<open>onInit\<close> that just returns.
\<close>

definition Greeter :: class_def where
  "Greeter = \<lparr>cname = Some ''Greeter'', inject = Some [Logger],
               construct = (\<lambda>args _. Inr ([(KString ''logger'', case args of [] \<Rightarrow> JUndefined | v # _ \<Rightarrow> v)], JUndefined)),
               onInit = Some (\<lambda>_ _. HReturn)\<rparr>"

text \<open>
  \<^verbatim>\<open>Once\<close>: the \<^verbatim>\<open>onInit\<close> of the first object ever allocated resolves the token
  \<^verbatim>\<open>"once"\<close> on container 0 again; later instances return at once.
  \<^verbatim>\<open>Failing\<close>: \<^verbatim>\<open>onInit\<close> throws.
\<close>

definition Once :: class_def where
  "Once = \<lparr>cname = Some ''Once'', inject = None, construct = (\<lambda>_ _. Inr ([], JUndefined)),
            onInit = Some (\<lambda>a h. if a = 0 then HResolve 0 (TString ''once'') else HReturn)\<rparr>"

definition Failing :: class_def where
  "Failing = \<lparr>cname = Some ''Failing'', inject = None, construct = (\<lambda>_ _. Inr ([], JUndefined)),
               onInit = Some (\<lambda>_ _. HThrow ''boom'')\<rparr>"

text \<open>\<^verbatim>\<open>Lazy\<close> has no constructor dependencies; its logger arrives by property injection.\<close>

definition Lazy :: class_def where
  "Lazy = \<lparr>cname = Some ''Lazy'', inject = None, construct = (\<lambda>_ _. Inr ([], JUndefined)), onInit = None\<rparr>"

text \<open>
  \<^verbatim>\<open>Shared\<close>: the constructor returns an object it keeps, the one at address 0, instead
  of the one \<^verbatim>\<open>new\<close> allocated.
\<close>

definition Shared :: class_def where
  "Shared = \<lparr>cname = Some ''Shared'', inject = None, construct = (\<lambda>_ _. Inr ([], JRef 0)), onInit = None\<rparr>"

text \<open>
  \<^verbatim>\<open>Dep\<close>: the \<^verbatim>\<open>onInit\<close> of the first object ever allocated resolves the token
  \<^verbatim>\<open>"svc"\<close> on container 0.  \<^verbatim>\<open>SvcThrows\<close> and \<^verbatim>\<open>SvcAgain\<close> take the token
  \<^verbatim>\<open>"dep"\<close> as constructor dependency; the \<^verbatim>\<open>onInit\<close> of the object at address 3
  throws, respectively resolves \<^verbatim>\<open>"svc"\<close> on container 0 again.
\<close>

definition Dep :: class_def where
  "Dep = \<lparr>cname = Some ''Dep'', inject = None, construct = (\<lambda>_ _. Inr ([], JUndefined)),
           onInit = Some (\<lambda>a h. if a = 0 then HResolve 0 (TString ''svc'') else HReturn)\<rparr>"

definition SvcThrows :: class_def where
  "SvcThrows = \<lparr>cname = Some ''SvcThrows'', inject = Some [TString ''dep''],
                 construct = (\<lambda>_ _. Inr ([], JUndefined)),
                 onInit = Some (\<lambda>a h. if a = 3 then HThrow ''late'' else HReturn)\<rparr>"

definition SvcAgain :: class_def where
  "SvcAgain = \<lparr>cname = Some ''SvcAgain'', inject = Some [TString ''dep''],
                construct = (\<lambda>_ _. Inr ([], JUndefined)),
                onInit = Some (\<lambda>a h. if a = 3 then HResolve 0 (TString ''svc'') else HReturn)\<rparr>"

definition demo :: classes where
  "demo k = (if k = 1 then A_class else if k = 2 then B_class else if k = 3 then ConsoleLogger
             else if k = 4 then Greeter else if k = 5 then Once else if k = 6 then Failing
             else if k = 7 then Lazy else if k = 8 then Shared else if k = 9 then Dep
             else if k = 10 then SvcThrows else if k = 11 then SvcAgain else object_class)"

text \<open>Provider objects.\<close>

definition class_provider :: "token \<Rightarrow> nat \<Rightarrow> Scope option \<Rightarrow> provider" where
  "class_provider tok k sc =
     \<lparr>token = Some tok, scope = sc, useClass = Some k, useValue = JUndefined,
      useFactory = None, deps = None\<rparr>"

definition value_provider :: "token \<Rightarrow> jsval \<Rightarrow> Scope option \<Rightarrow> provider" where
  "value_provider tok v sc =
     \<lparr>token = Some tok, scope = sc, useClass = None, useValue = v,
      useFactory = None, deps = None\<rparr>"

text \<open>A provider object without a token, and one that carries all three payload fields.\<close>

definition tokenless :: provider where
  "tokenless = \<lparr>token = None, scope = None, useClass = Some 3, useValue = JUndefined,
                 useFactory = None, deps = None\<rparr>"

definition both_payloads :: provider where
  "both_payloads = \<lparr>token = Some (TString ''both''), scope = Some Transient, useClass = Some 3,
                     useValue = JNum 7, useFactory = Some (\<lambda>_. Inr (Existing (JStr ''made''))), deps = None\<rparr>"

text \<open>
  A provider none of the three guards accepts; \<^verbatim>\<open>{ token: "shapeless", useValue: undefined }\<close>
  is one, and it has the type \<^verbatim>\<open>ValueProvider<undefined>\<close>.
\<close>

definition shapeless :: provider where
  "shapeless = \<lparr>token = Some (TString ''shapeless''), scope = None, useClass = None,
                 useValue = JUndefined, useFactory = None, deps = None\<rparr>"

text \<open>
  States.  \<open>state_after\<close> reads the state an outcome ends in.  \<open>registered_on\<close> is a state
  after \<^verbatim>\<open>register(...ps)\<close> on a container (the state itself if the first provider is
  refused), \<open>registered\<close> the same on the root container of \<open>root_state\<close>.
  \<open>config_state\<close> holds one plain configuration object, at address 0.
  \<open>child_of_root\<close> is the state after \<^verbatim>\<open>createChild()\<close> on the root container.
\<close>

definition state_after :: "'a outcome \<Rightarrow> state \<Rightarrow> state" where
  "state_after r d = (case final_state r of Some s \<Rightarrow> s | None \<Rightarrow> d)"

definition registered_on :: "state \<Rightarrow> nat \<Rightarrow> provider list \<Rightarrow> state" where
  "registered_on s c ps = (case final_state (register c (map Some ps) s) of Some s' \<Rightarrow> s' | None \<Rightarrow> s)"

definition registered :: "provider list \<Rightarrow> state" where
  "registered ps = (case final_state (register 0 (map Some ps) root_state) of Some s \<Rightarrow> s | None \<Rightarrow> root_state)"

definition config_state :: state where
  "config_state = (case final_state (new_object 0 [(KString ''appName'', JStr ''MyApp'')] root_state) of
                     Some s \<Rightarrow> s | None \<Rightarrow> root_state)"


text \<open>
  Scenarios on the root container.  \<open>clock_state\<close>: a Transient class provider.
  \<open>greeter_over_logger\<close>: the Transient \<^verbatim>\<open>Greeter\<close> over a Singleton logger.
  \<open>family_state\<close>: a Singleton logger on the root, and a child container.
\<close>

definition clock_state :: state where
  "clock_state = registered [class_provider (TString ''clock'') 3 (Some Transient)]"

definition greeter_over_logger :: state where
  "greeter_over_logger =
     registered [class_provider Logger 3 (Some Singleton), class_provider (TClass 4) 4 (Some Transient)]"


text \<open>
  \<open>lazy_state\<close>: \<^verbatim>\<open>Lazy\<close> with \<^verbatim>\<open>@Inject(Logger) logger\<close>, a Singleton logger and a
  configuration value; \<open>lazy_resolved\<close> is the state after \<^verbatim>\<open>resolve("lazy", [Logger])\<close>
  in one of the copies.  \<open>twice_declared\<close>: the same with a second declaration for the
  same field, \<^verbatim>\<open>@Inject("cfg") logger\<close>, and \<open>twice_resolved\<close> the state after
  \<^verbatim>\<open>resolve("lazy")\<close>.
\<close>

definition lazy_state :: state where
  "lazy_state = Inject Logger 7 (KString ''logger'')
      (registered [class_provider Logger 3 (Some Singleton),
                   value_provider (TString ''cfg'') (JNum 5) None,
                   class_provider (TString ''lazy'') 7 None])"

definition lazy_resolved :: "(classes \<Rightarrow> nat \<Rightarrow> resolver) \<Rightarrow> state" where
  "lazy_resolved res = state_after (res demo 2 0 (TString ''lazy'') [Logger] lazy_state) root_state"








section \<open>Unfolding one call\<close>

lemma resolve_Suc:
  "resolve K (Suc n) this tok stack s =
     (if tok \<in> set stack then
       Throws (CircularDependencyError
                 (''Circular dependency detected: '' @ join '' -> '' (map (tokenToString K) (stack @ [tok])))) s
     else case getProvider s this tok of
       None \<Rightarrow> Throws (ProviderNotFoundError (''No provider for token: '' @ tokenToString K tok)) s
     | Some provider \<Rightarrow>
         (let sc = (case scope provider of Some x \<Rightarrow> x | None \<Rightarrow> Singleton)
          in if sc = Singleton \<and> singletons (conts s this) (token provider) \<noteq> None
             then Returns (the (singletons (conts s this) (token provider))) s
             else andThen (instantiate K (resolve K n) this provider (stack @ [tok]) s) (\<lambda>instance s1.
                  andThen (applyPropertyInjections (resolve K n) this instance s1) (\<lambda>_ s2.
                  andThen (call_onInit K (resolve K n) instance s2) (\<lambda>_ s3.
                  Returns instance s3)))))"
  by simp

lemma resolve_part000_Suc:
  "resolve_part000 K (Suc n) this tok stack s =
     (if tok \<in> set stack then
       Throws (CircularDependencyError
                 (''Circular dependency detected: '' @ join '' -> '' (map (tokenToString K) (stack @ [tok])))) s
     else case getProvider s this tok of
       None \<Rightarrow> Throws (ProviderNotFoundError (''No provider for token: '' @ tokenToString K tok)) s
     | Some provider \<Rightarrow>
         (let sc = (case scope provider of Some x \<Rightarrow> x | None \<Rightarrow> Singleton)
          in if sc = Singleton \<and> singletons (conts s this) (token provider) \<noteq> None
             then Returns (the (singletons (conts s this) (token provider))) s
             else andThen (instantiate_part000 K (resolve_part000 K n) this provider (stack @ [tok]) s) (\<lambda>instance s1.
                  andThen (applyPropertyInjections (resolve_part000 K n) this instance s1) (\<lambda>_ s2.
                  andThen (call_onInit K (resolve_part000 K n) instance s2) (\<lambda>_ s3.
                  Returns instance
                    (if sc = Singleton then cache_store this (token provider) instance s3 else s3))))))"
  by simp

lemma resolve_test_Suc:
  "resolve_test K (Suc n) this tok stack s =
     (if tok \<in> set stack then
       Throws (CircularDependencyError
                 (''Circular dependency detected: '' @ join '' -> '' (map (tokenToString_test K) (stack @ [tok])))) s
     else case getProvider s this tok of
       None \<Rightarrow> Throws (ProviderNotFoundError (''No provider for token: '' @ tokenToString_test K tok)) s
     | Some provider \<Rightarrow>
         (let sc = (case scope provider of Some x \<Rightarrow> x | None \<Rightarrow> Singleton)
          in if sc = Singleton \<and> singletons (conts s this) (token provider) \<noteq> None
             then Returns (case singletons (conts s this) (Some tok) of Some v \<Rightarrow> v | None \<Rightarrow> JUndefined) s
             else andThen (instantiate_test K (resolve_test K n) this provider (stack @ [tok]) s) (\<lambda>instance s1.
                  andThen (applyPropertyInjections (resolve_test K n) this instance s1) (\<lambda>_ s2.
                  andThen (call_onInit K (resolve_test K n) instance s2) (\<lambda>_ s3.
                  Returns instance
                    (if sc = Singleton then cache_store this (token provider) instance s3 else s3))))))"
  by simp

declare resolve.simps(2) [simp del] resolve_part000.simps(2) [simp del] resolve_test.simps(2) [simp del]

lemmas run_defs = setProvider_def truthy_token_def getProvider.simps
  instantiate_def instantiate_part000_def instantiate_test_def cache_store_def
  applyPropertyInjections_def call_onInit_def construct_new_def new_object_def
  call_factory_def defineProperty_def isClassProvider_def isFactoryProvider_def isValueProvider_def
  root_state_def empty_container_def plain_object_def assign_fields_def data_property_def Let_def
  registered_def class_provider_def value_provider_def Logger_def
  resolve_Suc resolve_part000_Suc resolve_test_Suc

lemmas demo_defs = demo_def object_class_def A_class_def B_class_def ConsoleLogger_def
  Greeter_def Once_def Failing_def Lazy_def Shared_def Dep_def SvcThrows_def SvcAgain_def

section \<open>Registration\<close>

lemma andThen_assoc: "andThen (andThen r f) g = andThen r (\<lambda>x s. andThen (f x s) g)"
  by (cases r) simp_all

lemma register_append:
  "register c (xs @ ys) s = andThen (register c xs s) (\<lambda>_ s1. register c ys s1)"
proof (induction xs arbitrary: s)
  case Nil
  show ?case by simp
next
  case (Cons x xs)
  show ?case by (cases "setProvider c x s") (simp_all add: Cons.IH)
qed

text \<open>
  C7.  \<^verbatim>\<open>register\<close> with a provider object that has no token (or an empty-string one,
  which \<^verbatim>\<open>!p.token\<close> rejects as well) throws
  \<^verbatim>\<open>ResolutionError("Invalid provider: missing token")\<close> from \<^verbatim>\<open>setProvider\<close>, with no
  call to \<^verbatim>\<open>resolve\<close>.  The state is the one the throw found: the provider table gets
  no entry for this provider nor for any provider after it in the same call; providers
  before it in the same call have been stored already.
\<close>

theorem register_rejects_missing_token:
  assumes "\<not> truthy_token (token p)"
  shows "setProvider c (Some p) s = Throws (ResolutionError ''Invalid provider: missing token'') s
       \<and> register c (Some p # post) s = Throws (ResolutionError ''Invalid provider: missing token'') s
       \<and> register c (pre @ Some p # post) s
           = andThen (register c pre s) (\<lambda>_ s1. Throws (ResolutionError ''Invalid provider: missing token'') s1)"
proof -
  have one: "setProvider c (Some p) s' = Throws (ResolutionError ''Invalid provider: missing token'') s'" for s'
    using assms by (simp add: setProvider_def)
  then have two: "register c (Some p # post) s' = Throws (ResolutionError ''Invalid provider: missing token'') s'" for s'
    by simp
  show ?thesis
    by (simp add: one register_append two del: register.simps)
qed

text \<open>The provider without a token, alone and after a good one.\<close>

theorem register_rejects_missing_token_witness:
  "\<not> truthy_token (token tokenless)
   \<and> register 0 [Some tokenless] root_state
       = Throws (ResolutionError ''Invalid provider: missing token'') root_state
   \<and> register 0 [Some (class_provider Logger 3 None), Some tokenless] root_state
       = Throws (ResolutionError ''Invalid provider: missing token'') (registered [class_provider Logger 3 None])"
  using register_rejects_missing_token [of tokenless 0 root_state "[]" "[Some (class_provider Logger 3 None)]"]
  by (simp add: tokenless_def truthy_token_def setProvider_def registered_def class_provider_def Logger_def)

text \<open>
  C9.  \<^verbatim>\<open>register\<close> checks the token and nothing else: any provider with a truthy token
  is stored, whatever payload fields it has.  \<^verbatim>\<open>instantiate\<close> tests \<^verbatim>\<open>useClass\<close>
  first in all three copies, so a provider with \<^verbatim>\<open>useClass\<close> is constructed as a class
  whatever \<^verbatim>\<open>useValue\<close> and \<^verbatim>\<open>useFactory\<close> hold.
\<close>

theorem payload_shape_unchecked:
  "(truthy_token (token p) \<longrightarrow>
      register c [Some p] s
        = Returns c (s\<lparr>conts := (conts s)(c := (conts s c)
                         \<lparr>providers := (providers (conts s c))(the (token p) \<mapsto> p)\<rparr>)\<rparr>))
   \<and> (useClass p = Some k \<longrightarrow>
        instantiate K R c p stack s
          = andThen (resolve_deps (\<lambda>dep. R c dep stack) (case inject (K k) of Some l \<Rightarrow> l | None \<Rightarrow> []) s)
              (construct_new K k)
      \<and> instantiate_part000 K R c p stack s
          = andThen (resolve_deps (\<lambda>dep. R c dep stack) (case inject (K k) of Some l \<Rightarrow> l | None \<Rightarrow> []) s)
              (construct_new K k)
      \<and> instantiate_test K R c p stack s
          = andThen (resolve_deps (\<lambda>dep. R c dep stack) (case inject (K k) of Some l \<Rightarrow> l | None \<Rightarrow> []) s)
              (construct_new K k))"
  by (simp add: setProvider_def instantiate_def instantiate_part000_def instantiate_test_def
        isClassProvider_def Let_def)

text \<open>A provider with all three payloads is stored and resolves to a new object, not to 7.\<close>

theorem payload_shape_unchecked_witness:
  "truthy_token (token both_payloads) \<and> useClass both_payloads = Some 3
   \<and> useValue both_payloads = JNum 7 \<and> useFactory both_payloads \<noteq> None
   \<and> getProvider (registered [both_payloads]) 0 (TString ''both'') = Some both_payloads
   \<and> returned (instantiate demo (resolve demo 0) 0 both_payloads [] root_state) = Some (JRef 0)
   \<and> returned (resolve demo 1 0 (TString ''both'') [] (registered [both_payloads])) = Some (JRef 0)"
  using payload_shape_unchecked [of both_payloads 0 root_state 3 demo "resolve demo 0" "[]"]
  by (simp add: both_payloads_def run_defs demo_defs)

section \<open>Cycle detection\<close>

lemma resolve_miss:
  assumes "tok \<notin> set stack" "getProvider s c tok = Some p" "\<not> cache_hit s c p"
  shows "resolve K (Suc n) c tok stack s =
           andThen (instantiate K (resolve K n) c p (stack @ [tok]) s) (\<lambda>instance s1.
           andThen (applyPropertyInjections (resolve K n) c instance s1) (\<lambda>_ s2.
           andThen (call_onInit K (resolve K n) instance s2) (\<lambda>_ s3. Returns instance s3)))"
  using assms by (auto simp add: resolve_Suc cache_hit_def Let_def)

text \<open>
  C4.  A call \<^verbatim>\<open>resolve(token, stack)\<close> with the token already in the stack throws
  \<^verbatim>\<open>CircularDependencyError\<close>; its message is \<^verbatim>\<open>"Circular dependency detected: "\<close>
  followed by the stringified tokens of the stack and then of the token, joined by
  \<^verbatim>\<open>" -> "\<close>.  In particular, with class providers for A and B, neither cached, whose
  classes inject \<^verbatim>\<open>[B]\<close> and \<^verbatim>\<open>[A]\<close>, resolving A throws with the chain
  \<^verbatim>\<open>A -> B -> A\<close>, and the state is untouched.
\<close>

theorem cycle_check:
  "(tok \<in> set stack \<longrightarrow>
      resolve K (Suc n) c tok stack s
        = Throws (CircularDependencyError
                   (''Circular dependency detected: ''
                      @ join '' -> '' (map (tokenToString K) stack @ [tokenToString K tok]))) s)
   \<and> (A \<noteq> B \<and> getProvider s c A = Some pa \<and> getProvider s c B = Some pb
        \<and> useClass pa = Some ka \<and> useClass pb = Some kb
        \<and> inject (K ka) = Some [B] \<and> inject (K kb) = Some [A]
        \<and> \<not> cache_hit s c pa \<and> \<not> cache_hit s c pb \<longrightarrow>
      resolve K (Suc (Suc (Suc n))) c A [] s
        = Throws (CircularDependencyError
                   (''Circular dependency detected: ''
                      @ tokenToString K A @ '' -> '' @ tokenToString K B @ '' -> '' @ tokenToString K A)) s)"
proof (intro conjI impI)
  assume "tok \<in> set stack"
  then show "resolve K (Suc n) c tok stack s
        = Throws (CircularDependencyError
                   (''Circular dependency detected: ''
                      @ join '' -> '' (map (tokenToString K) stack @ [tokenToString K tok]))) s"
    by (simp add: resolve_Suc)
next
  assume h: "A \<noteq> B \<and> getProvider s c A = Some pa \<and> getProvider s c B = Some pb
        \<and> useClass pa = Some ka \<and> useClass pb = Some kb
        \<and> inject (K ka) = Some [B] \<and> inject (K kb) = Some [A]
        \<and> \<not> cache_hit s c pa \<and> \<not> cache_hit s c pb"
  define err :: "jsval outcome" where "err = Throws (CircularDependencyError
                   (''Circular dependency detected: ''
                      @ tokenToString K A @ '' -> '' @ tokenToString K B @ '' -> '' @ tokenToString K A)) s"
  from h have gA: "getProvider s c A = Some pa" and gB: "getProvider s c B = Some pb"
    and mA: "\<not> cache_hit s c pa" and mB: "\<not> cache_hit s c pb"
    and cA: "useClass pa = Some ka" "inject (K ka) = Some [B]"
    and cB: "useClass pb = Some kb" "inject (K kb) = Some [A]"
    and ne: "B \<notin> set [A]"
    by auto
  have inner: "resolve K (Suc n) c A [A, B] s = err"
    by (simp add: resolve_Suc err_def)
  have instB: "instantiate K (resolve K (Suc n)) c pb [A, B] s = err"
    using cB by (simp add: instantiate_def isClassProvider_def inner) (simp add: err_def)
  have midB: "resolve K (Suc (Suc n)) c B [A] s = err"
    by (simp add: resolve_miss [OF ne gB mB] instB) (simp add: err_def)
  have instA: "instantiate K (resolve K (Suc (Suc n))) c pa [A] s = err"
    using cA by (simp add: instantiate_def isClassProvider_def midB) (simp add: err_def)
  have "A \<notin> set []" by simp
  then have "resolve K (Suc (Suc (Suc n))) c A [] s = err"
    by (simp add: resolve_miss [OF _ gA mA] instA) (simp add: err_def)
  then show "resolve K (Suc (Suc (Suc n))) c A [] s
        = Throws (CircularDependencyError
                   (''Circular dependency detected: ''
                      @ tokenToString K A @ '' -> '' @ tokenToString K B @ '' -> '' @ tokenToString K A)) s"
    by (simp add: err_def)
qed

text \<open>Classes A and B of the small program, used as their own tokens.\<close>

theorem cycle_check_witness:
  "TClass 1 \<in> set [TClass 1, TClass 2]
   \<and> resolve demo 1 0 (TClass 1) [TClass 1, TClass 2] root_state
       = Throws (CircularDependencyError ''Circular dependency detected: A -> B -> A'') root_state
   \<and> TClass 1 \<noteq> TClass 2
   \<and> getProvider (registered [class_provider (TClass 1) 1 None, class_provider (TClass 2) 2 None]) 0 (TClass 1)
       = Some (class_provider (TClass 1) 1 None)
   \<and> getProvider (registered [class_provider (TClass 1) 1 None, class_provider (TClass 2) 2 None]) 0 (TClass 2)
       = Some (class_provider (TClass 2) 2 None)
   \<and> inject (demo 1) = Some [TClass 2] \<and> inject (demo 2) = Some [TClass 1]
   \<and> \<not> cache_hit (registered [class_provider (TClass 1) 1 None, class_provider (TClass 2) 2 None]) 0 (class_provider (TClass 1) 1 None)
   \<and> \<not> cache_hit (registered [class_provider (TClass 1) 1 None, class_provider (TClass 2) 2 None]) 0 (class_provider (TClass 2) 2 None)
   \<and> resolve demo 3 0 (TClass 1) [] (registered [class_provider (TClass 1) 1 None, class_provider (TClass 2) 2 None])
       = Throws (CircularDependencyError ''Circular dependency detected: A -> B -> A'')
           (registered [class_provider (TClass 1) 1 None, class_provider (TClass 2) 2 None])"
  using cycle_check [of "TClass 1" "[TClass 1, TClass 2]" demo 0 0 root_state]
    cycle_check [where K = demo and c = 0 and A = "TClass 1" and B = "TClass 2" and n = 0
       and s = "registered [class_provider (TClass 1) 1 None, class_provider (TClass 2) 2 None]"
       and pa = "class_provider (TClass 1) 1 None" and pb = "class_provider (TClass 2) 2 None"
       and ka = 1 and kb = 2]
  by (simp add: cache_hit_def setProvider_def truthy_token_def getProvider.simps
        root_state_def empty_container_def registered_def class_provider_def demo_defs eval_nat_numeral)

section \<open>Instances that are not objects\<close>

lemma non_object_cases: "\<not> truthy v \<or> typeof v \<noteq> ''object'' \<Longrightarrow> v \<noteq> JRef a"
  by (cases v) auto

text \<open>
  C8.  When \<^verbatim>\<open>instantiate\<close> hands back something that is not an object (\<^verbatim>\<open>undefined\<close>,
  \<^verbatim>\<open>null\<close>, a boolean, a number, a string), \<^verbatim>\<open>applyPropertyInjections\<close> returns at
  its first line, the \<^verbatim>\<open>onInit\<close> test is false (also for \<^verbatim>\<open>null\<close>, through \<^verbatim>\<open>?.\<close>),
  and \<^verbatim>\<open>resolve\<close> returns that value in the state \<^verbatim>\<open>instantiate\<close> left.
\<close>

theorem non_object_instance_returned:
  assumes "tok \<notin> set stack" and "getProvider s c tok = Some p" and "\<not> cache_hit s c p"
    and "instantiate K (resolve K n) c p (stack @ [tok]) s = Returns v s1"
    and "\<not> truthy v \<or> typeof v \<noteq> ''object''"
  shows "applyPropertyInjections (resolve K n) c v s1 = Returns () s1
       \<and> call_onInit K (resolve K n) v s1 = Returns () s1
       \<and> resolve K (Suc n) c tok stack s = Returns v s1"
proof -
  have skip: "applyPropertyInjections (resolve K n) c v s1 = Returns () s1"
    using assms(5) by (simp add: applyPropertyInjections_def)
  have nohook: "call_onInit K (resolve K n) v s1 = Returns () s1"
    using non_object_cases [OF assms(5)] by (cases v) (auto simp add: call_onInit_def)
  show ?thesis
    by (simp add: resolve_miss [OF assms(1,2,3)] assms(4) skip nohook)
qed

text \<open>A value provider holding \<^verbatim>\<open>null\<close>.\<close>

theorem non_object_instance_returned_witness:
  "TString ''nothing'' \<notin> set []
   \<and> getProvider (registered [value_provider (TString ''nothing'') JNull None]) 0 (TString ''nothing'')
       = Some (value_provider (TString ''nothing'') JNull None)
   \<and> \<not> cache_hit (registered [value_provider (TString ''nothing'') JNull None]) 0
         (value_provider (TString ''nothing'') JNull None)
   \<and> instantiate demo (resolve demo 0) 0 (value_provider (TString ''nothing'') JNull None)
         ([] @ [TString ''nothing'']) (registered [value_provider (TString ''nothing'') JNull None])
       = Returns JNull (registered [value_provider (TString ''nothing'') JNull None])
   \<and> \<not> truthy JNull
   \<and> resolve demo (Suc 0) 0 (TString ''nothing'') [] (registered [value_provider (TString ''nothing'') JNull None])
       = Returns JNull (registered [value_provider (TString ''nothing'') JNull None])"
  using non_object_instance_returned [where K = demo and n = 0 and c = 0 and tok = "TString ''nothing''"
      and stack = "[]" and s = "registered [value_provider (TString ''nothing'') JNull None]"
      and p = "value_provider (TString ''nothing'') JNull None" and v = JNull
      and ?s1.0 = "registered [value_provider (TString ''nothing'') JNull None]"]
  by (simp add: cache_hit_def setProvider_def truthy_token_def getProvider.simps instantiate_def
        isClassProvider_def isFactoryProvider_def isValueProvider_def
        root_state_def empty_container_def registered_def value_provider_def)

section \<open>A provider of no known kind\<close>

lemma instantiate_no_variant:
  assumes "\<not> isClassProvider p" "\<not> isFactoryProvider p" "\<not> isValueProvider p"
  shows "instantiate K R c p stack s = Returns JUndefined s"
    and "instantiate_test K R c p stack s = Returns JUndefined s"
    and "instantiate_part000 K R c p stack s = Throws (ResolutionError ''Unknown provider type'') s"
  using assms by (simp_all add: instantiate_def instantiate_test_def instantiate_part000_def)

text \<open>
  C2.  The claim asks for a \<^verbatim>\<open>ResolutionError\<close> when no guard of \<^verbatim>\<open>instantiate\<close>
  accepts the provider.  The annotated copy throws it.  \<^verbatim>\<open>src/di.ts\<close> and \<^verbatim>\<open>test.ts\<close>
  have no such last line: \<^verbatim>\<open>instantiate\<close> falls off its end, and \<^verbatim>\<open>resolve\<close> returns
  \<^verbatim>\<open>undefined\<close> to the caller.
\<close>

theorem unknown_provider_returns_undefined:
  "\<not> isClassProvider shapeless \<and> \<not> isValueProvider shapeless \<and> \<not> isFactoryProvider shapeless
   \<and> instantiate demo (resolve demo 0) 0 shapeless [TString ''shapeless''] (registered [shapeless])
       = Returns JUndefined (registered [shapeless])
   \<and> resolve demo 1 0 (TString ''shapeless'') [] (registered [shapeless])
       = Returns JUndefined (registered [shapeless])
   \<and> instantiate_test demo (resolve_test demo 0) 0 shapeless [TString ''shapeless''] (registered [shapeless])
       = Returns JUndefined (registered [shapeless])
   \<and> returned (resolve_test demo 1 0 (TString ''shapeless'') [] (registered [shapeless])) = Some JUndefined
   \<and> resolve_part000 demo 1 0 (TString ''shapeless'') [] (registered [shapeless])
       = Throws (ResolutionError ''Unknown provider type'') (registered [shapeless])"
  by (simp add: shapeless_def run_defs demo_defs)

section \<open>Singleton scope\<close>

text \<open>
  C1.  The claim asks for the same instance from two \<^verbatim>\<open>resolve\<close> calls on a Singleton
  token.  \<^verbatim>\<open>resolve\<close> in \<^verbatim>\<open>src/di.ts\<close> reads \<^verbatim>\<open>this.singletons\<close> but never writes
  it: the second call constructs a second object and the cache stays empty.  The
  annotated copy and \<^verbatim>\<open>test.ts\<close> store the instance and return it the second time.
\<close>

theorem singleton_rebuilt_in_di_ts:
  "returned (andThen (resolve demo 2 0 Logger [] (registered [class_provider Logger 3 (Some Singleton)])) (\<lambda>v1 s1.
             andThen (resolve demo 2 0 Logger [] s1) (\<lambda>v2 s2.
               Returns (v1, v2, singletons (conts s2 0) (Some Logger)) s2)))
     = Some (JRef 0, JRef 1, None)
   \<and> returned (andThen (resolve_part000 demo 2 0 Logger [] (registered [class_provider Logger 3 (Some Singleton)])) (\<lambda>v1 s1.
             andThen (resolve_part000 demo 2 0 Logger [] s1) (\<lambda>v2 s2.
               Returns (v1, v2, singletons (conts s2 0) (Some Logger)) s2)))
     = Some (JRef 0, JRef 0, Some (JRef 0))
   \<and> returned (andThen (resolve_test demo 2 0 Logger [] (registered [class_provider Logger 3 (Some Singleton)])) (\<lambda>v1 s1.
             andThen (resolve_test demo 2 0 Logger [] s1) (\<lambda>v2 s2.
               Returns (v1, v2, singletons (conts s2 0) (Some Logger)) s2)))
     = Some (JRef 0, JRef 0, Some (JRef 0))"
  by (simp add: run_defs demo_defs eval_nat_numeral)

section \<open>What a resolution leaves alone\<close>

lemma within_simps [simp]:
  "within Q s (Returns x s') = Q s s'"
  "within Q s (Throws e s') = Q s s'"
  "within Q s OutOfFuel = True"
  by (simp_all add: within_def)

lemma closed_relD:
  assumes "closed_rel Q"
  shows "Q s s" and "Q a b \<Longrightarrow> Q b c \<Longrightarrow> Q a c" and "same_classes (store s) h \<Longrightarrow> Q s (s\<lparr>store := h\<rparr>)"
  using assms unfolding closed_rel_def by blast+

lemma andThen_Returns:
  "andThen r f = Returns y s' \<Longrightarrow> \<exists>x s1. r = Returns x s1 \<and> f x s1 = Returns y s'"
  by (cases r) simp_all

lemma within_andThen:
  assumes cl: "closed_rel Q" and r: "within Q s r"
    and f: "\<And>x s1. r = Returns x s1 \<Longrightarrow> within Q s1 (f x s1)"
  shows "within Q s (andThen r f)"
proof (cases r)
  case (Returns x s1)
  then have a: "Q s s1" and b: "within Q s1 (f x s1)" using r f by simp_all
  show ?thesis
  proof (cases "f x s1")
    case (Returns y s2)
    then show ?thesis using a b \<open>r = Returns x s1\<close> closed_relD(2) [OF cl] by auto
  next
    case (Throws e s2)
    then show ?thesis using a b \<open>r = Returns x s1\<close> closed_relD(2) [OF cl] by auto
  next
    case OutOfFuel
    then show ?thesis using \<open>r = Returns x s1\<close> by simp
  qed
next
  case (Throws e s1)
  then show ?thesis using r by simp
next
  case OutOfFuel
  then show ?thesis by simp
qed

lemma within_then_store:
  assumes "within Q s r" and "\<And>x s'. r = Returns x s' \<Longrightarrow> Q s s' \<Longrightarrow> Q s (g x s')"
  shows "within Q s (andThen r (\<lambda>x s'. Returns x (g x s')))"
  using assms by (cases r) simp_all

lemma same_classes_refl [simp]: "same_classes h h"
  by (simp add: same_classes_def)

lemma same_classes_trans: "same_classes a b \<Longrightarrow> same_classes b c \<Longrightarrow> same_classes a c"
  by (auto simp add: same_classes_def)

lemma within_new_object: "closed_rel Q \<Longrightarrow> within Q s (new_object k fs s)"
  by (simp add: new_object_def Let_def closed_relD(3) same_classes_def)

lemma within_construct_new:
  assumes cl: "closed_rel Q"
  shows "within Q s (construct_new K k args s)"
proof (cases "construct (K k) args (store s)")
  case (Inl msg)
  then show ?thesis by (simp add: construct_new_def closed_relD(1) [OF cl])
next
  case (Inr b)
  obtain fs r where b: "b = (fs, r)" by (cases b)
  have "within Q s (andThen (new_object k fs s) (\<lambda>this s1. Returns (if is_object r then r else this) s1))"
    by (rule within_andThen [OF cl within_new_object [OF cl]]) (simp add: closed_relD(1) [OF cl])
  then show ?thesis by (simp add: construct_new_def Inr b)
qed

lemma within_call_factory: "closed_rel Q \<Longrightarrow> within Q s (call_factory f args s)"
  by (simp add: call_factory_def within_new_object closed_relD(1) split: sum.split made.split)

lemma within_defineProperty: "closed_rel Q \<Longrightarrow> within Q s (defineProperty a key d s)"
  by (simp add: defineProperty_def Let_def closed_relD(1) closed_relD(3) same_classes_def split: option.split)

lemma within_resolve_deps:
  assumes cl: "closed_rel Q" and R: "\<And>t s. within Q s (R t s)"
  shows "within Q s (resolve_deps R ds s)"
proof (induction ds arbitrary: s)
  case Nil
  show ?case by (simp add: closed_relD(1) [OF cl])
next
  case (Cons d ds)
  show ?case
    apply (simp only: resolve_deps.simps)
    apply (rule within_andThen [OF cl R])
    apply (rule within_andThen [OF cl Cons.IH])
    apply (simp add: closed_relD(1) [OF cl])
    done
qed

lemma within_instantiate:
  assumes cl: "closed_rel Q" and R: "keeps Q R"
  shows "within Q s (instantiate K R c p st s)"
    and "within Q s (instantiate_test K R c p st s)"
    and "within Q s (instantiate_part000 K R c p st s)"
proof -
  have d: "within Q s (resolve_deps (\<lambda>dep. R c dep st) ds s)" for ds
    using R by (intro within_resolve_deps [OF cl]) (simp add: keeps_def)
  have a: "within Q s (andThen (resolve_deps (\<lambda>dep. R c dep st) ds s) (construct_new K k))" for ds k
    by (rule within_andThen [OF cl d]) (rule within_construct_new [OF cl])
  have b: "within Q s (andThen (resolve_deps (\<lambda>dep. R c dep st) ds s) (call_factory f))" for ds f
    by (rule within_andThen [OF cl d]) (rule within_call_factory [OF cl])
  show "within Q s (instantiate K R c p st s)"
    by (simp add: instantiate_def Let_def a b closed_relD(1) [OF cl])
  show "within Q s (instantiate_test K R c p st s)"
    by (simp add: instantiate_test_def Let_def a b closed_relD(1) [OF cl])
  show "within Q s (instantiate_part000 K R c p st s)"
    by (simp add: instantiate_part000_def Let_def a b closed_relD(1) [OF cl])
qed

lemma within_inject_each:
  assumes cl: "closed_rel Q" and R: "\<And>t s. within Q s (R t s)"
  shows "within Q s (inject_each R a decls s)"
proof (induction decls arbitrary: s)
  case Nil
  show ?case by (simp add: closed_relD(1) [OF cl])
next
  case (Cons d decls)
  obtain key tok where d: "d = (key, tok)" by (cases d)
  show ?case
    apply (simp only: d inject_each.simps)
    apply (rule within_andThen [OF cl R])
    apply (rule within_andThen [OF cl within_defineProperty [OF cl]])
    apply (rule Cons.IH)
    done
qed

lemma within_applyPropertyInjections:
  assumes cl: "closed_rel Q" and R: "keeps Q R"
  shows "within Q s (applyPropertyInjections R c inst s)"
proof -
  have "within Q s (inject_each (\<lambda>tok. R c tok []) a decls s)" for a decls
    using R by (intro within_inject_each [OF cl]) (simp add: keeps_def)
  then show ?thesis
    by (cases inst) (simp_all add: applyPropertyInjections_def Let_def closed_relD(1) [OF cl])
qed

lemma within_call_onInit:
  assumes cl: "closed_rel Q" and R: "keeps Q R"
  shows "within Q s (call_onInit K R inst s)"
proof -
  have "within Q s (andThen (R c tok [] s) (\<lambda>_ s1. Returns () s1))" for c tok
    apply (rule within_andThen [OF cl])
    using R apply (simp add: keeps_def)
    apply (simp add: closed_relD(1) [OF cl])
    done
  then show ?thesis
    by (simp add: call_onInit_def closed_relD(1) [OF cl] split: jsval.split option.split hook_step.split)
qed

text \<open>The three steps of a resolution after a cache miss, for any recursive call and any last write.\<close>

lemma within_steps:
  assumes cl: "closed_rel Q" and R: "keeps Q R" and i: "within Q s inst"
  shows "within Q s
     (andThen inst (\<lambda>instance s1.
        andThen (applyPropertyInjections R c instance s1) (\<lambda>_ s2.
        andThen (call_onInit K R instance s2) (\<lambda>_ s3. Returns instance s3))))"
  apply (rule within_andThen [OF cl i])
  apply (rule within_andThen [OF cl within_applyPropertyInjections [OF cl R]])
  apply (rule within_andThen [OF cl within_call_onInit [OF cl R]])
  apply (simp add: closed_relD(1) [OF cl])
  done

lemma steps_then_store:
  "andThen inst (\<lambda>instance s1.
        andThen (applyPropertyInjections R c instance s1) (\<lambda>_ s2.
        andThen (call_onInit K R instance s2) (\<lambda>_ s3. Returns instance (g instance s3))))
   = andThen (andThen inst (\<lambda>instance s1.
        andThen (applyPropertyInjections R c instance s1) (\<lambda>_ s2.
        andThen (call_onInit K R instance s2) (\<lambda>_ s3. Returns instance s3))))
       (\<lambda>x s'. Returns x (g x s'))"
  by (simp add: andThen_assoc)

lemma closed_only_heap_grew: "closed_rel only_heap_grew"
  by (auto simp add: closed_rel_def only_heap_grew_def intro: same_classes_trans)

lemma closed_registry_kept: "closed_rel registry_kept"
  by (auto simp add: closed_rel_def registry_kept_def intro: same_classes_trans)

lemma registry_kept_fresh: "registry_kept s s' \<Longrightarrow> fresh (store s) \<le> fresh (store s')"
  by (simp add: registry_kept_def same_classes_def)


lemma getProvider_agree:
  assumes "\<And>i. i \<le> c \<Longrightarrow> providers (conts s' i) = providers (conts s i) \<and> parent (conts s' i) = parent (conts s i)"
  shows "getProvider s' c t = getProvider s c t"
  using assms
proof (induction c rule: less_induct)
  case (less c)
  have eq: "providers (conts s' c) = providers (conts s c)" "parent (conts s' c) = parent (conts s c)"
    using less.prems [of c] by auto
  have rec: "getProvider s' p t = getProvider s p t" if "p < c" for p
    using less.IH [OF that] less.prems that by auto
  show ?case
    by (simp only: getProvider.simps [of s' c t] getProvider.simps [of s c t])
       (auto simp add: eq rec split: option.split)
qed

lemma registry_kept_getProvider: "registry_kept s s' \<Longrightarrow> getProvider s' c t = getProvider s c t"
  by (rule getProvider_agree) (auto simp add: registry_kept_def dest: fun_cong)

lemma registry_kept_cache_store: "registry_kept s (cache_store c k v s)"
  by (auto simp add: registry_kept_def cache_store_def)

lemma closed_cached_for_singletons: "closed_rel cached_for_singletons"
  unfolding closed_rel_def
proof (intro conjI allI impI)
  fix s
  show "cached_for_singletons s s"
    using closed_relD(1) [OF closed_registry_kept] by (simp add: cached_for_singletons_def)
next
  fix a b c
  assume ab: "cached_for_singletons a b" and bc: "cached_for_singletons b c"
  have "registry_kept a c"
    using ab bc closed_relD(2) [OF closed_registry_kept] by (auto simp add: cached_for_singletons_def)
  moreover have "getProvider b i t = getProvider a i t" for i t
    using ab by (simp add: cached_for_singletons_def registry_kept_getProvider)
  ultimately show "cached_for_singletons a c"
    using ab bc unfolding cached_for_singletons_def by metis
next
  fix s :: state and h :: heap
  assume "same_classes (store s) h"
  then show "cached_for_singletons s (s\<lparr>store := h\<rparr>)"
    using closed_relD(3) [OF closed_registry_kept] by (simp add: cached_for_singletons_def)
qed

lemma cached_for_singletons_store:
  assumes "cached_for_singletons s s3" and "getProvider s c t = Some p" and "scope p \<noteq> Some Transient"
    and "singletons (conts s c) (token p) = None"
  shows "cached_for_singletons s (cache_store c (token p) v s3)"
proof -
  have "registry_kept s (cache_store c (token p) v s3)"
    using assms(1) closed_relD(2) [OF closed_registry_kept _ registry_kept_cache_store]
    by (simp add: cached_for_singletons_def)
  moreover have "singletons (conts s i) k = None
       \<and> (\<exists>t p'. getProvider s i t = Some p' \<and> token p' = k \<and> scope p' \<noteq> Some Transient)"
    if "singletons (conts (cache_store c (token p) v s3) i) k \<noteq> singletons (conts s i) k" for i k
  proof (cases "i = c \<and> k = token p")
    case True
    then show ?thesis using assms(2,3,4) by auto
  next
    case False
    then have "singletons (conts (cache_store c (token p) v s3) i) k = singletons (conts s3 i) k"
      by (auto simp add: cache_store_def)
    then show ?thesis using that assms(1) by (simp add: cached_for_singletons_def)
  qed
  ultimately show ?thesis by (simp add: cached_for_singletons_def)
qed

lemma only_heap_grew_cached: "only_heap_grew s s' \<Longrightarrow> cached_for_singletons s s'"
  by (simp add: only_heap_grew_def cached_for_singletons_def registry_kept_def)

lemma keeps_resolve: "keeps only_heap_grew (resolve K n)"
proof (induction n)
  case 0
  show ?case by (simp add: keeps_def)
next
  case (Suc n)
  note cl = closed_only_heap_grew
  show ?case
    unfolding keeps_def
  proof (intro allI)
    fix c t st s
    show "within only_heap_grew s (resolve K (Suc n) c t st s)"
      by (simp add: resolve_Suc Let_def closed_relD(1) [OF cl]
            within_steps [OF cl Suc within_instantiate(1) [OF cl Suc]] split: option.split)
  qed
qed

lemma keeps_cached_resolve: "keeps cached_for_singletons (resolve K n)"
  using keeps_resolve [of K n] unfolding keeps_def
  by (metis only_heap_grew_cached within_def option.case_eq_if)

lemma keeps_cached_part000: "keeps cached_for_singletons (resolve_part000 K n)"
proof (induction n)
  case 0
  show ?case by (simp add: keeps_def)
next
  case (Suc n)
  note cl = closed_cached_for_singletons
  show ?case
    unfolding keeps_def
  proof (intro allI)
    fix c t st s
    show "within cached_for_singletons s (resolve_part000 K (Suc n) c t st s)"
    proof (cases "getProvider s c t")
      case None
      then show ?thesis by (simp add: resolve_part000_Suc closed_relD(1) [OF cl])
    next
      case (Some p)
      define b where "b = ((case scope p of Some x \<Rightarrow> x | None \<Rightarrow> Singleton) = Singleton)"
      have bt: "b \<longrightarrow> scope p \<noteq> Some Transient" by (auto simp add: b_def)
      have body: "within cached_for_singletons s
         (andThen (instantiate_part000 K (resolve_part000 K n) c p (st @ [t]) s) (\<lambda>instance s1.
            andThen (applyPropertyInjections (resolve_part000 K n) c instance s1) (\<lambda>_ s2.
            andThen (call_onInit K (resolve_part000 K n) instance s2) (\<lambda>_ s3.
              Returns instance (if b then cache_store c (token p) instance s3 else s3)))))"
        if "b \<longrightarrow> singletons (conts s c) (token p) = None"
        unfolding steps_then_store [where g = "\<lambda>instance s3. if b then cache_store c (token p) instance s3 else s3"]
        apply (rule within_then_store [OF within_steps [OF cl Suc within_instantiate(3) [OF cl Suc]]])
        using that bt Some by (auto simp add: cached_for_singletons_store)
      show ?thesis
        using body
        by (auto simp add: resolve_part000_Suc Some Let_def b_def closed_relD(1) [OF cl])
    qed
  qed
qed

lemma keeps_cached_test: "keeps cached_for_singletons (resolve_test K n)"
proof (induction n)
  case 0
  show ?case by (simp add: keeps_def)
next
  case (Suc n)
  note cl = closed_cached_for_singletons
  show ?case
    unfolding keeps_def
  proof (intro allI)
    fix c t st s
    show "within cached_for_singletons s (resolve_test K (Suc n) c t st s)"
    proof (cases "getProvider s c t")
      case None
      then show ?thesis by (simp add: resolve_test_Suc closed_relD(1) [OF cl])
    next
      case (Some p)
      define b where "b = ((case scope p of Some x \<Rightarrow> x | None \<Rightarrow> Singleton) = Singleton)"
      have bt: "b \<longrightarrow> scope p \<noteq> Some Transient" by (auto simp add: b_def)
      have body: "within cached_for_singletons s
         (andThen (instantiate_test K (resolve_test K n) c p (st @ [t]) s) (\<lambda>instance s1.
            andThen (applyPropertyInjections (resolve_test K n) c instance s1) (\<lambda>_ s2.
            andThen (call_onInit K (resolve_test K n) instance s2) (\<lambda>_ s3.
              Returns instance (if b then cache_store c (token p) instance s3 else s3)))))"
        if "b \<longrightarrow> singletons (conts s c) (token p) = None"
        unfolding steps_then_store [where g = "\<lambda>instance s3. if b then cache_store c (token p) instance s3 else s3"]
        apply (rule within_then_store [OF within_steps [OF cl Suc within_instantiate(2) [OF cl Suc]]])
        using that bt Some by (auto simp add: cached_for_singletons_store)
      show ?thesis
        using body
        by (auto simp add: resolve_test_Suc Some Let_def b_def closed_relD(1) [OF cl])
    qed
  qed
qed

text \<open>Reading the invariant off one call.\<close>

lemma cachedD:
  assumes "keeps cached_for_singletons R" and "final_state (R c t st s) = Some s'"
  shows "cached_for_singletons s s'" and "registry_kept s s'" and "fresh (store s) \<le> fresh (store s')"
    and "getProvider s' i u = getProvider s i u"
proof -
  have "within cached_for_singletons s (R c t st s)" using assms(1) unfolding keeps_def by blast
  then show a: "cached_for_singletons s s'" using assms(2) by (simp add: within_def)
  then show b: "registry_kept s s'" by (simp add: cached_for_singletons_def)
  then show "fresh (store s) \<le> fresh (store s')" by (rule registry_kept_fresh)
  show "getProvider s' i u = getProvider s i u" using b by (rule registry_kept_getProvider)
qed

lemma keeps_registry:
  assumes "keeps cached_for_singletons R"
  shows "keeps registry_kept R"
  using assms unfolding keeps_def within_def cached_for_singletons_def
  by (metis (no_types, lifting) option.case_eq_if)

section \<open>One resolution, step by step\<close>

lemma singleton_scoped_iff: "singleton_scoped p \<longleftrightarrow> scope p \<noteq> Some Transient"
  by (cases "scope p") (auto simp add: singleton_scoped_def intro: Scope.exhaust)

lemma cache_hit_iff:
  "cache_hit s c p \<longleftrightarrow> scope p \<noteq> Some Transient \<and> singletons (conts s c) (token p) \<noteq> None"
  using singleton_scoped_iff [of p] by (simp add: cache_hit_def singleton_scoped_def)

lemma resolve_part000_miss:
  assumes "tok \<notin> set stack" and "getProvider s c tok = Some p" and "\<not> cache_hit s c p"
  shows "resolve_part000 K (Suc n) c tok stack s =
           andThen (instantiate_part000 K (resolve_part000 K n) c p (stack @ [tok]) s) (\<lambda>instance s1.
           andThen (applyPropertyInjections (resolve_part000 K n) c instance s1) (\<lambda>_ s2.
           andThen (call_onInit K (resolve_part000 K n) instance s2) (\<lambda>_ s3.
             Returns instance (if singleton_scoped p then cache_store c (token p) instance s3 else s3))))"
  using assms by (auto simp add: resolve_part000_Suc cache_hit_def singleton_scoped_def Let_def)

lemma resolve_test_miss:
  assumes "tok \<notin> set stack" and "getProvider s c tok = Some p" and "\<not> cache_hit s c p"
  shows "resolve_test K (Suc n) c tok stack s =
           andThen (instantiate_test K (resolve_test K n) c p (stack @ [tok]) s) (\<lambda>instance s1.
           andThen (applyPropertyInjections (resolve_test K n) c instance s1) (\<lambda>_ s2.
           andThen (call_onInit K (resolve_test K n) instance s2) (\<lambda>_ s3.
             Returns instance (if singleton_scoped p then cache_store c (token p) instance s3 else s3))))"
  using assms by (auto simp add: resolve_test_Suc cache_hit_def singleton_scoped_def Let_def)

lemma resolve_part000_hit:
  assumes "tok \<notin> set stack" and "getProvider s c tok = Some p" and "scope p \<noteq> Some Transient"
    and "singletons (conts s c) (token p) = Some v"
  shows "resolve_part000 K (Suc n) c tok stack s = Returns v s"
  using assms singleton_scoped_iff [of p]
  by (simp add: resolve_part000_Suc singleton_scoped_def Let_def)

lemma resolve_test_hit:
  assumes "tok \<notin> set stack" and "getProvider s c tok = Some p" and "scope p \<noteq> Some Transient"
    and "token p = Some tok" and "singletons (conts s c) (token p) = Some v"
  shows "resolve_test K (Suc n) c tok stack s = Returns v s"
  using assms singleton_scoped_iff [of p]
  by (simp add: resolve_test_Suc singleton_scoped_def Let_def)

lemma not_in_stack:
  "resolve K n c tok st s = Returns v s' \<Longrightarrow> tok \<notin> set st"
  "resolve_part000 K n c tok st s = Returns v s' \<Longrightarrow> tok \<notin> set st"
  "resolve_test K n c tok st s = Returns v s' \<Longrightarrow> tok \<notin> set st"
  by (cases n; auto simp add: resolve_Suc resolve_part000_Suc resolve_test_Suc)+

lemma instantiate_class:
  assumes "useClass p = Some k"
  shows "instantiate K R c p st s
           = andThen (resolve_deps (\<lambda>dep. R c dep st) (case inject (K k) of Some l \<Rightarrow> l | None \<Rightarrow> []) s)
               (construct_new K k)"
    and "instantiate_part000 K R c p st s
           = andThen (resolve_deps (\<lambda>dep. R c dep st) (case inject (K k) of Some l \<Rightarrow> l | None \<Rightarrow> []) s)
               (construct_new K k)"
    and "instantiate_test K R c p st s
           = andThen (resolve_deps (\<lambda>dep. R c dep st) (case inject (K k) of Some l \<Rightarrow> l | None \<Rightarrow> []) s)
               (construct_new K k)"
  using assms
  by (simp_all add: instantiate_def instantiate_part000_def instantiate_test_def isClassProvider_def Let_def)

lemma instantiate_plain:
  assumes "\<not> isClassProvider p" and "\<not> isFactoryProvider p"
  shows "instantiate K R c p st s = Returns v s1 \<Longrightarrow> v = useValue p \<and> s1 = s"
    and "instantiate_part000 K R c p st s = Returns v s1 \<Longrightarrow> v = useValue p \<and> s1 = s"
    and "instantiate_test K R c p st s = Returns v s1 \<Longrightarrow> v = useValue p \<and> s1 = s"
  using assms
  by (auto simp add: instantiate_def instantiate_part000_def instantiate_test_def isValueProvider_def
        split: if_splits)

lemma new_object_Returns:
  assumes "new_object k fs s = Returns v s1"
  shows "v = JRef (fresh (store s))" and "constructor_id (objs (store s1) (fresh (store s))) = k"
    and "props (objs (store s1) (fresh (store s))) = assign_fields fs"
    and "propertyInjections s1 = propertyInjections s" and "conts s1 = conts s"
    and "fresh (store s1) = Suc (fresh (store s))"
  using assms by (auto simp add: new_object_def Let_def)

lemma construct_new_ordinary:
  assumes "ordinary_constructor (K k)" and "construct_new K k args s = Returns v s1"
  shows "v = JRef (fresh (store s))" and "fresh (store s1) = Suc (fresh (store s))"
    and "constructor_id (objs (store s1) (fresh (store s))) = k"
    and "\<exists>fs r. construct (K k) args (store s) = Inr (fs, r)
           \<and> props (objs (store s1) (fresh (store s))) = assign_fields fs"
    and "propertyInjections s1 = propertyInjections s" and "conts s1 = conts s"
proof -
  from assms(2) obtain fs r this where
    c: "construct (K k) args (store s) = Inr (fs, r)" and n: "new_object k fs s = Returns this s1"
    and v: "v = (if is_object r then r else this)"
    by (auto simp add: construct_new_def split: sum.splits dest!: andThen_Returns)
  have "\<not> is_object r" using assms(1) c unfolding ordinary_constructor_def by blast
  then have "v = this" using v by simp
  then show "v = JRef (fresh (store s))" and "fresh (store s1) = Suc (fresh (store s))"
    and "constructor_id (objs (store s1) (fresh (store s))) = k"
    and "propertyInjections s1 = propertyInjections s" and "conts s1 = conts s"
    using new_object_Returns [OF n] by simp_all
  show "\<exists>fs r. construct (K k) args (store s) = Inr (fs, r)
           \<and> props (objs (store s1) (fresh (store s))) = assign_fields fs"
    using c new_object_Returns(3) [OF n] by blast
qed

lemma resolve_deps_kept:
  assumes "keeps registry_kept R" and "resolve_deps (\<lambda>dep. R c dep st) ds s = Returns args s'"
  shows "registry_kept s s'"
proof -
  have "within registry_kept s (resolve_deps (\<lambda>dep. R c dep st) ds s)"
    using assms(1) by (intro within_resolve_deps [OF closed_registry_kept]) (simp add: keeps_def)
  then show ?thesis using assms(2) by simp
qed

lemma class_instance_fresh:
  assumes "keeps registry_kept R" and "ordinary_constructor (K k)"
    and "andThen (resolve_deps (\<lambda>dep. R c dep st) ds s) (construct_new K k) = Returns v s1"
  shows "\<exists>a. v = JRef a \<and> fresh (store s) \<le> a \<and> a < fresh (store s1)"
proof -
  from assms(3) obtain args s0 where
    d: "resolve_deps (\<lambda>dep. R c dep st) ds s = Returns args s0"
    and n: "construct_new K k args s0 = Returns v s1"
    by (auto dest!: andThen_Returns)
  have "fresh (store s) \<le> fresh (store s0)"
    using resolve_deps_kept [OF assms(1) d] by (rule registry_kept_fresh)
  then show ?thesis using construct_new_ordinary(1,2) [OF assms(2) n] by auto
qed

lemma steps_Returns:
  assumes "keeps registry_kept R"
    and "andThen inst (\<lambda>instance s1.
           andThen (applyPropertyInjections R c instance s1) (\<lambda>_ s2.
           andThen (call_onInit K R instance s2) (\<lambda>_ s3. Returns instance (g instance s3)))) = Returns v s'"
  shows "\<exists>s1 s2 s3. inst = Returns v s1 \<and> applyPropertyInjections R c v s1 = Returns () s2
           \<and> call_onInit K R v s2 = Returns () s3 \<and> s' = g v s3
           \<and> registry_kept s1 s2 \<and> registry_kept s2 s3"
proof -
  from assms(2) obtain s1 s2 s3 where
    i: "inst = Returns v s1" and a: "applyPropertyInjections R c v s1 = Returns () s2"
    and h: "call_onInit K R v s2 = Returns () s3" and g: "s' = g v s3"
    by (auto dest!: andThen_Returns)
  have "within registry_kept s1 (applyPropertyInjections R c v s1)"
    by (rule within_applyPropertyInjections [OF closed_registry_kept assms(1)])
  then have k1: "registry_kept s1 s2" using a by simp
  have "within registry_kept s2 (call_onInit K R v s2)"
    by (rule within_call_onInit [OF closed_registry_kept assms(1)])
  then have k2: "registry_kept s2 s3" using h by simp
  show ?thesis using i a h g k1 k2 by blast
qed

lemma keeps_registry_all:
  "keeps registry_kept (resolve K n)"
  "keeps registry_kept (resolve_part000 K n)"
  "keeps registry_kept (resolve_test K n)"
  by (rule keeps_registry, rule keeps_cached_resolve keeps_cached_part000 keeps_cached_test)+

lemma fresh_cache_store: "fresh (store (if b then cache_store c k v s else s)) = fresh (store s)"
  by (simp add: cache_store_def)

lemma resolve_builds_new:
  assumes "getProvider s c tok = Some p" and "\<not> cache_hit s c p"
    and "useClass p = Some k" and "ordinary_constructor (K k)"
    and "resolve K n c tok st s = Returns v s'"
  shows "\<exists>a. v = JRef a \<and> fresh (store s) \<le> a \<and> a < fresh (store s')"
proof -
  obtain m where n: "n = Suc m" using assms(5) by (cases n) auto
  from assms(5) obtain s1 s2 s3 where
    i: "instantiate K (resolve K m) c p (st @ [tok]) s = Returns v s1"
    and k: "registry_kept s1 s2" "registry_kept s2 s3" and e: "s' = s3"
    unfolding n resolve_miss [OF not_in_stack(1) [OF assms(5)] assms(1,2)]
    using steps_Returns [OF keeps_registry_all(1) [of K m], where g = "\<lambda>_ s. s"] by blast
  from class_instance_fresh [OF keeps_registry_all(1) assms(4) i [unfolded instantiate_class(1) [OF assms(3)]]]
  show ?thesis using k [THEN registry_kept_fresh] e by auto
qed

lemma resolve_part000_builds_new:
  assumes "getProvider s c tok = Some p" and "\<not> cache_hit s c p"
    and "useClass p = Some k" and "ordinary_constructor (K k)"
    and "resolve_part000 K n c tok st s = Returns v s'"
  shows "\<exists>a. v = JRef a \<and> fresh (store s) \<le> a \<and> a < fresh (store s')"
proof -
  obtain m where n: "n = Suc m" using assms(5) by (cases n) auto
  from assms(5) obtain s1 s2 s3 where
    i: "instantiate_part000 K (resolve_part000 K m) c p (st @ [tok]) s = Returns v s1"
    and k: "registry_kept s1 s2" "registry_kept s2 s3"
    and e: "s' = (if singleton_scoped p then cache_store c (token p) v s3 else s3)"
    unfolding n resolve_part000_miss [OF not_in_stack(2) [OF assms(5)] assms(1,2)]
    using steps_Returns [OF keeps_registry_all(2) [of K m],
        where g = "\<lambda>v s. if singleton_scoped p then cache_store c (token p) v s else s"] by blast
  from class_instance_fresh [OF keeps_registry_all(2) assms(4) i [unfolded instantiate_class(2) [OF assms(3)]]]
  show ?thesis using k [THEN registry_kept_fresh] e by (auto simp add: cache_store_def)
qed

lemma resolve_test_builds_new:
  assumes "getProvider s c tok = Some p" and "\<not> cache_hit s c p"
    and "useClass p = Some k" and "ordinary_constructor (K k)"
    and "resolve_test K n c tok st s = Returns v s'"
  shows "\<exists>a. v = JRef a \<and> fresh (store s) \<le> a \<and> a < fresh (store s')"
proof -
  obtain m where n: "n = Suc m" using assms(5) by (cases n) auto
  from assms(5) obtain s1 s2 s3 where
    i: "instantiate_test K (resolve_test K m) c p (st @ [tok]) s = Returns v s1"
    and k: "registry_kept s1 s2" "registry_kept s2 s3"
    and e: "s' = (if singleton_scoped p then cache_store c (token p) v s3 else s3)"
    unfolding n resolve_test_miss [OF not_in_stack(3) [OF assms(5)] assms(1,2)]
    using steps_Returns [OF keeps_registry_all(3) [of K m],
        where g = "\<lambda>v s. if singleton_scoped p then cache_store c (token p) v s else s"] by blast
  from class_instance_fresh [OF keeps_registry_all(3) assms(4) i [unfolded instantiate_class(3) [OF assms(3)]]]
  show ?thesis using k [THEN registry_kept_fresh] e by (auto simp add: cache_store_def)
qed

lemma resolve_plain_value:
  assumes "getProvider s c tok = Some p" and "\<not> cache_hit s c p"
    and "\<not> isClassProvider p" and "\<not> isFactoryProvider p"
  shows "resolve K n c tok st s = Returns v s' \<Longrightarrow> v = useValue p"
    and "resolve_part000 K n c tok st s = Returns v s' \<Longrightarrow> v = useValue p"
    and "resolve_test K n c tok st s = Returns v s' \<Longrightarrow> v = useValue p"
proof -
  assume r: "resolve K n c tok st s = Returns v s'"
  obtain m where n: "n = Suc m" using r by (cases n) auto
  from r obtain s1 where "instantiate K (resolve K m) c p (st @ [tok]) s = Returns v s1"
    unfolding n resolve_miss [OF not_in_stack(1) [OF r] assms(1,2)]
    by (auto dest!: andThen_Returns)
  then show "v = useValue p" using instantiate_plain(1) [OF assms(3,4)] by blast
next
  assume r: "resolve_part000 K n c tok st s = Returns v s'"
  obtain m where n: "n = Suc m" using r by (cases n) auto
  from r obtain s1 where "instantiate_part000 K (resolve_part000 K m) c p (st @ [tok]) s = Returns v s1"
    unfolding n resolve_part000_miss [OF not_in_stack(2) [OF r] assms(1,2)]
    by (auto dest!: andThen_Returns)
  then show "v = useValue p" using instantiate_plain(2) [OF assms(3,4)] by blast
next
  assume r: "resolve_test K n c tok st s = Returns v s'"
  obtain m where n: "n = Suc m" using r by (cases n) auto
  from r obtain s1 where "instantiate_test K (resolve_test K m) c p (st @ [tok]) s = Returns v s1"
    unfolding n resolve_test_miss [OF not_in_stack(3) [OF r] assms(1,2)]
    by (auto dest!: andThen_Returns)
  then show "v = useValue p" using instantiate_plain(3) [OF assms(3,4)] by blast
qed

text \<open>After a Singleton resolution in a copy that writes the cache, the entry is the result.\<close>

lemma resolve_part000_cached:
  assumes "getProvider s c tok = Some p" and "scope p \<noteq> Some Transient"
    and "resolve_part000 K n c tok st s = Returns v s'"
  shows "singletons (conts s' c) (token p) = Some v"
proof (cases "cache_hit s c p")
  case True
  then obtain w where w: "singletons (conts s c) (token p) = Some w" by (auto simp add: cache_hit_iff)
  obtain m where n: "n = Suc m" using assms(3) by (cases n) auto
  show ?thesis
    using assms(3) w
    unfolding n resolve_part000_hit [OF not_in_stack(2) [OF assms(3)] assms(1,2) w] by simp
next
  case False
  obtain m where n: "n = Suc m" using assms(3) by (cases n) auto
  from assms(3) obtain s3 where "s' = cache_store c (token p) v s3"
    unfolding n resolve_part000_miss [OF not_in_stack(2) [OF assms(3)] assms(1) False]
    using singleton_scoped_iff [of p] assms(2) by (auto dest!: andThen_Returns)
  then show ?thesis by (simp add: cache_store_def)
qed

lemma resolve_test_cached:
  assumes "getProvider s c tok = Some p" and "scope p \<noteq> Some Transient" and "token p = Some tok"
    and "resolve_test K n c tok st s = Returns v s'"
  shows "singletons (conts s' c) (token p) = Some v"
proof (cases "cache_hit s c p")
  case True
  then obtain w where w: "singletons (conts s c) (token p) = Some w" by (auto simp add: cache_hit_iff)
  obtain m where n: "n = Suc m" using assms(4) by (cases n) auto
  show ?thesis
    using assms(4) w
    unfolding n resolve_test_hit [OF not_in_stack(3) [OF assms(4)] assms(1,2,3) w] by simp
next
  case False
  obtain m where n: "n = Suc m" using assms(4) by (cases n) auto
  from assms(4) obtain s3 where "s' = cache_store c (token p) v s3"
    unfolding n resolve_test_miss [OF not_in_stack(3) [OF assms(4)] assms(1) False]
    using singleton_scoped_iff [of p] assms(2) by (auto dest!: andThen_Returns)
  then show ?thesis by (simp add: cache_store_def)
qed

section \<open>The three copies\<close>

lemma copiesE:
  assumes "res \<in> set copies"
  obtains "res = resolve" | "res = resolve_part000" | "res = resolve_test"
  using assms by (auto simp add: copies_def)

lemma caching_copiesE:
  assumes "res \<in> set caching_copies"
  obtains "res = resolve_part000" | "res = resolve_test"
  using assms by (auto simp add: caching_copies_def)

lemma caching_copies_sub: "res \<in> set caching_copies \<Longrightarrow> res \<in> set copies"
  by (auto simp add: caching_copies_def copies_def)

lemma copies_keep:
  assumes "res \<in> set copies"
  shows "keeps cached_for_singletons (res K n)"
  using assms keeps_cached_resolve keeps_cached_part000 keeps_cached_test
  by (auto elim!: copiesE)


lemma copies_builds_new:
  assumes "res \<in> set copies" and "getProvider s c tok = Some p" and "\<not> cache_hit s c p"
    and "useClass p = Some k" and "ordinary_constructor (K k)"
    and "res K n c tok st s = Returns v s'"
  shows "\<exists>a. v = JRef a \<and> fresh (store s) \<le> a \<and> a < fresh (store s')"
  using assms resolve_builds_new resolve_part000_builds_new resolve_test_builds_new
  by (auto elim!: copiesE)

lemma copies_plain_value:
  assumes "res \<in> set copies" and "getProvider s c tok = Some p" and "\<not> cache_hit s c p"
    and "\<not> isClassProvider p" and "\<not> isFactoryProvider p"
    and "res K n c tok st s = Returns v s'"
  shows "v = useValue p"
  using assms resolve_plain_value by (auto elim!: copiesE)


lemma caching_copies_cached:
  assumes "res \<in> set caching_copies" and "getProvider s c tok = Some p" and "scope p \<noteq> Some Transient"
    and "token p = Some tok" and "res K n c tok st s = Returns v s'"
  shows "singletons (conts s' c) (token p) = Some v"
proof (rule caching_copiesE [OF assms(1)])
  assume "res = resolve_part000"
  then show ?thesis using resolve_part000_cached [OF assms(2,3)] assms(5) by blast
next
  assume "res = resolve_test"
  then show ?thesis using resolve_test_cached [OF assms(2,3,4)] assms(5) by blast
qed

lemma caching_copies_hit:
  assumes "res \<in> set caching_copies" and "tok \<notin> set stack" and "getProvider s c tok = Some p"
    and "scope p \<noteq> Some Transient" and "token p = Some tok"
    and "singletons (conts s c) (token p) = Some v"
  shows "res K (Suc n) c tok stack s = Returns v s"
proof (rule caching_copiesE [OF assms(1)])
  assume "res = resolve_part000"
  then show ?thesis using resolve_part000_hit [OF assms(2,3,4,6)] by blast
next
  assume "res = resolve_test"
  then show ?thesis using resolve_test_hit [OF assms(2,3,4,5,6)] by blast
qed

lemma getProvider_keyed:
  assumes "keyed s" and "getProvider s c t = Some p"
  shows "token p = Some t"
  using assms(2)
proof (induction c rule: less_induct)
  case (less c)
  show ?case
  proof (cases "providers (conts s c) t")
    case (Some q)
    then show ?thesis using less.prems assms(1) by (simp add: getProvider.simps [of s c t] keyed_def)
  next
    case None
    then show ?thesis
      using less.prems less.IH
      by (auto simp add: getProvider.simps [of s c t] split: option.splits if_splits)
  qed
qed

lemma keyed_registry_kept:
  assumes "keyed s" and "registry_kept s s'"
  shows "keyed s'"
proof -
  have "providers (conts s' i) = providers (conts s i)" for i
    using assms(2) by (auto simp add: registry_kept_def dest: fun_cong)
  then show ?thesis using assms(1) by (simp add: keyed_def)
qed

lemma keyed_setProvider:
  assumes "keyed s" and "final_state (setProvider c p s) = Some s'"
  shows "keyed s'"
  using assms
  by (auto simp add: keyed_def setProvider_def truthy_token_def split: option.splits if_splits token.splits)

lemma keyed_register:
  assumes "keyed s" and "final_state (register c ps s) = Some s'"
  shows "keyed s'"
  using assms
proof (induction ps arbitrary: s)
  case Nil
  then show ?case by simp
next
  case (Cons p ps)
  show ?case
  proof (cases "setProvider c p s")
    case (Returns u s1)
    then have "keyed s1" using keyed_setProvider [OF Cons.prems(1), of c p s1] by simp
    then show ?thesis using Cons.IH [of s1] Cons.prems(2) Returns by simp
  next
    case (Throws e s1)
    then show ?thesis using keyed_setProvider [OF Cons.prems(1), of c p s1] Cons.prems(2) by simp
  next
    case OutOfFuel
    then show ?thesis using Cons.prems(2) by simp
  qed
qed

lemma keyed_root: "keyed root_state"
  by (simp add: keyed_def root_state_def empty_container_def)

lemma keyed_registered_on: "keyed s \<Longrightarrow> keyed (registered_on s c ps)"
  using keyed_register [of s c "map Some ps"]
  by (auto simp add: registered_on_def split: option.splits)

lemma keyed_registered: "keyed (registered ps)"
  using keyed_register [OF keyed_root, of 0 "map Some ps"]
  by (auto simp add: registered_def keyed_root split: option.splits)


lemma keyed_config: "keyed config_state"
  using keyed_root by (simp add: keyed_def config_state_def new_object_def Let_def)



text \<open>A resolution never writes the cache entry of a Transient token.\<close>

lemma transient_entry_kept:
  assumes "res \<in> set copies" and "keyed s" and "getProvider s c tok = Some p" and "scope p = Some Transient"
    and "final_state (res K n c' t st s) = Some s'"
  shows "singletons (conts s' c) (Some tok) = singletons (conts s c) (Some tok)"
proof (rule ccontr)
  assume ch: "singletons (conts s' c) (Some tok) \<noteq> singletons (conts s c) (Some tok)"
  have "cached_for_singletons s s'" using cachedD(1) [OF copies_keep [OF assms(1)] assms(5)] .
  with ch obtain u q where q: "getProvider s c u = Some q" "token q = Some tok" "scope q \<noteq> Some Transient"
    unfolding cached_for_singletons_def by blast
  have "u = tok" using getProvider_keyed [OF assms(2) q(1)] q(2) by simp
  then show False using q assms(3,4) by simp
qed

section \<open>Transient scope\<close>

text \<open>
  C3, amended.  In each of the three copies, for a token whose provider has Transient
  scope: if the provider is a class provider whose constructor does not return an object
  of its own, two calls of \<^verbatim>\<open>resolve\<close> on the same container that both return give two
  different objects; if it is neither a class nor a factory provider, both calls return
  \<^verbatim>\<open>provider.useValue\<close> itself; and, the provider table being keyed, no resolution of
  the token, returning or throwing, changes the singleton-cache entry under that token.
\<close>

theorem transient_resolutions:
  assumes "res \<in> set copies" and "getProvider s c tok = Some p" and "scope p = Some Transient"
    and "res K n c tok [] s = Returns v1 s1" and "res K m c tok [] s1 = Returns v2 s2"
  shows "(\<forall>k. useClass p = Some k \<and> ordinary_constructor (K k) \<longrightarrow> v1 \<noteq> v2)
       \<and> (\<not> isClassProvider p \<and> \<not> isFactoryProvider p \<longrightarrow> v1 = useValue p \<and> v2 = useValue p)
       \<and> (keyed s \<longrightarrow>
            singletons (conts s1 c) (Some tok) = singletons (conts s c) (Some tok)
          \<and> singletons (conts s2 c) (Some tok) = singletons (conts s c) (Some tok)
          \<and> (\<forall>fuel st s'. final_state (res K fuel c tok st s) = Some s' \<longrightarrow>
                singletons (conts s' c) (Some tok) = singletons (conts s c) (Some tok)))"
proof -
  note kp = copies_keep [OF assms(1)]
  have f1: "final_state (res K n c tok [] s) = Some s1" using assms(4) by simp
  have f2: "final_state (res K m c tok [] s1) = Some s2" using assms(5) by simp
  have g1: "getProvider s1 c tok = Some p" using cachedD(4) [OF kp f1] assms(2) by simp
  have nh: "\<not> cache_hit s c p" "\<not> cache_hit s1 c p" using assms(3) by (simp_all add: cache_hit_iff)
  have distinct: "v1 \<noteq> v2" if "useClass p = Some k \<and> ordinary_constructor (K k)" for k
  proof -
    from copies_builds_new [OF assms(1,2) nh(1) _ _ assms(4)] that
    obtain a1 where a1: "v1 = JRef a1" "a1 < fresh (store s1)" by blast
    from copies_builds_new [OF assms(1) g1 nh(2) _ _ assms(5)] that
    obtain a2 where a2: "v2 = JRef a2" "fresh (store s1) \<le> a2" by blast
    show ?thesis using a1 a2 by auto
  qed
  have same: "v1 = useValue p \<and> v2 = useValue p" if "\<not> isClassProvider p \<and> \<not> isFactoryProvider p"
    using that copies_plain_value [OF assms(1,2) nh(1) _ _ assms(4)]
      copies_plain_value [OF assms(1) g1 nh(2) _ _ assms(5)] by blast
  have cache: "singletons (conts s1 c) (Some tok) = singletons (conts s c) (Some tok)
          \<and> singletons (conts s2 c) (Some tok) = singletons (conts s c) (Some tok)
          \<and> (\<forall>fuel st s'. final_state (res K fuel c tok st s) = Some s' \<longrightarrow>
                singletons (conts s' c) (Some tok) = singletons (conts s c) (Some tok))" if k: "keyed s"
  proof -
    have k1: "keyed s1" using keyed_registry_kept [OF k cachedD(2) [OF kp f1]] .
    have a: "singletons (conts s1 c) (Some tok) = singletons (conts s c) (Some tok)"
      using transient_entry_kept [OF assms(1) k assms(2,3) f1] .
    have b: "singletons (conts s2 c) (Some tok) = singletons (conts s1 c) (Some tok)"
      using transient_entry_kept [OF assms(1) k1 g1 assms(3) f2] .
    show ?thesis using a b transient_entry_kept [OF assms(1) k assms(2,3)] by auto
  qed
  show ?thesis using distinct same cache by blast
qed

lemma keyed_demo_states: "keyed clock_state" "keyed greeter_over_logger"
  by (simp_all add: clock_state_def greeter_over_logger_def keyed_registered)


text \<open>
  A Transient class provider resolved twice in \<^verbatim>\<open>src/di.ts\<close>; and, in the annotated
  copy, the Transient \<^verbatim>\<open>Greeter\<close> over a Singleton logger: two greeters, no cache entry
  under the greeter's token, one under the logger's.
\<close>

theorem transient_resolutions_witness:
  "resolve \<in> set copies
   \<and> getProvider clock_state 0 (TString ''clock'') = Some (class_provider (TString ''clock'') 3 (Some Transient))
   \<and> scope (class_provider (TString ''clock'') 3 (Some Transient)) = Some Transient
   \<and> useClass (class_provider (TString ''clock'') 3 (Some Transient)) = Some 3
   \<and> ordinary_constructor (demo 3)
   \<and> keyed clock_state
   \<and> resolve demo 1 0 (TString ''clock'') [] clock_state
       = Returns (JRef 0) (state_after (resolve demo 1 0 (TString ''clock'') [] clock_state) root_state)
   \<and> resolve demo 1 0 (TString ''clock'') []
         (state_after (resolve demo 1 0 (TString ''clock'') [] clock_state) root_state)
       = Returns (JRef 1)
           (state_after (resolve demo 1 0 (TString ''clock'') []
              (state_after (resolve demo 1 0 (TString ''clock'') [] clock_state) root_state)) root_state)
   \<and> JRef 0 \<noteq> JRef 1
   \<and> resolve_part000 \<in> set copies
   \<and> getProvider greeter_over_logger 0 (TClass 4) = Some (class_provider (TClass 4) 4 (Some Transient))
   \<and> useClass (class_provider (TClass 4) 4 (Some Transient)) = Some 4
   \<and> ordinary_constructor (demo 4)
   \<and> keyed greeter_over_logger
   \<and> resolve_part000 demo 2 0 (TClass 4) [] greeter_over_logger
       = Returns (JRef 1) (state_after (resolve_part000 demo 2 0 (TClass 4) [] greeter_over_logger) root_state)
   \<and> resolve_part000 demo 2 0 (TClass 4) []
         (state_after (resolve_part000 demo 2 0 (TClass 4) [] greeter_over_logger) root_state)
       = Returns (JRef 2)
           (state_after (resolve_part000 demo 2 0 (TClass 4) []
              (state_after (resolve_part000 demo 2 0 (TClass 4) [] greeter_over_logger) root_state)) root_state)
   \<and> JRef 1 \<noteq> JRef 2
   \<and> singletons (conts (state_after (resolve_part000 demo 2 0 (TClass 4) []
              (state_after (resolve_part000 demo 2 0 (TClass 4) [] greeter_over_logger) root_state)) root_state) 0)
        (Some (TClass 4)) = None
   \<and> singletons (conts (state_after (resolve_part000 demo 2 0 (TClass 4) []
              (state_after (resolve_part000 demo 2 0 (TClass 4) [] greeter_over_logger) root_state)) root_state) 0)
        (Some Logger) = Some (JRef 0)"
  using transient_resolutions [where res = resolve and K = demo and c = 0 and tok = "TString ''clock''"
      and n = 1 and m = 1 and s = clock_state
      and p = "class_provider (TString ''clock'') 3 (Some Transient)"
      and ?v1.0 = "JRef 0" and ?v2.0 = "JRef 1"
      and ?s1.0 = "state_after (resolve demo 1 0 (TString ''clock'') [] clock_state) root_state"
      and ?s2.0 = "state_after (resolve demo 1 0 (TString ''clock'') []
              (state_after (resolve demo 1 0 (TString ''clock'') [] clock_state) root_state)) root_state"]
    transient_resolutions [where res = resolve_part000 and K = demo and c = 0 and tok = "TClass 4"
      and n = 2 and m = 2 and s = greeter_over_logger
      and p = "class_provider (TClass 4) 4 (Some Transient)"
      and ?v1.0 = "JRef 1" and ?v2.0 = "JRef 2"
      and ?s1.0 = "state_after (resolve_part000 demo 2 0 (TClass 4) [] greeter_over_logger) root_state"
      and ?s2.0 = "state_after (resolve_part000 demo 2 0 (TClass 4) []
              (state_after (resolve_part000 demo 2 0 (TClass 4) [] greeter_over_logger) root_state)) root_state"]
    keyed_demo_states
  by (simp add: run_defs demo_defs state_after_def copies_def ordinary_constructor_def
        clock_state_def greeter_over_logger_def eval_nat_numeral)

text \<open>
  C3 as stated fails, in every copy: a Transient value provider holding the object at
  address 0 gives that same object to both calls, and so does a Transient class provider
  whose constructor returns the object it keeps.
\<close>

theorem transient_value_counterexample:
  "getProvider (registered_on config_state 0 [value_provider (TString ''config'') (JRef 0) (Some Transient)]) 0 (TString ''config'')
     = Some (value_provider (TString ''config'') (JRef 0) (Some Transient))
   \<and> scope (value_provider (TString ''config'') (JRef 0) (Some Transient)) = Some Transient
   \<and> returned (andThen (resolve demo 1 0 (TString ''config'') []
                  (registered_on config_state 0 [value_provider (TString ''config'') (JRef 0) (Some Transient)]))
        (\<lambda>v1 s1. andThen (resolve demo 1 0 (TString ''config'') [] s1)
        (\<lambda>v2 s2. Returns (v1, v2, v1 = v2) s2)))
       = Some (JRef 0, JRef 0, True)
   \<and> returned (andThen (resolve_part000 demo 1 0 (TString ''config'') []
                  (registered_on config_state 0 [value_provider (TString ''config'') (JRef 0) (Some Transient)]))
        (\<lambda>v1 s1. andThen (resolve_part000 demo 1 0 (TString ''config'') [] s1)
        (\<lambda>v2 s2. Returns (v1, v2, v1 = v2) s2)))
       = Some (JRef 0, JRef 0, True)
   \<and> returned (andThen (resolve_test demo 1 0 (TString ''config'') []
                  (registered_on config_state 0 [value_provider (TString ''config'') (JRef 0) (Some Transient)]))
        (\<lambda>v1 s1. andThen (resolve_test demo 1 0 (TString ''config'') [] s1)
        (\<lambda>v2 s2. Returns (v1, v2, v1 = v2) s2)))
       = Some (JRef 0, JRef 0, True)
   \<and> returned (andThen (resolve demo 1 0 (TString ''shared'') []
                  (registered_on config_state 0 [class_provider (TString ''shared'') 8 (Some Transient)]))
        (\<lambda>v1 s1. andThen (resolve demo 1 0 (TString ''shared'') [] s1)
        (\<lambda>v2 s2. Returns (v1, v2, v1 = v2) s2)))
       = Some (JRef 0, JRef 0, True)"
  by (simp add: run_defs demo_defs registered_on_def config_state_def)

section \<open>Parent and child containers\<close>

lemma createChild_facts:
  assumes "createChild P s0 = (C, s)" and "P < next_container s0"
  shows "parent (conts s C) = Some P" and "P < C"
    and "providers (conts s C) = Map.empty" and "singletons (conts s C) = Map.empty"
    and "conts s P = conts s0 P"
  using assms by (auto simp add: createChild_def new_Container_def)











section \<open>Property injection\<close>


















text \<open>
  In \<^verbatim>\<open>src/di.ts\<close> the same \<^verbatim>\<open>Lazy\<close> over the Singleton logger gets an object of its
  own: nothing is cached, and a later \<^verbatim>\<open>resolve(Logger)\<close> constructs a third object.
  This is the missing cache write of \<^verbatim>\<open>resolve\<close>, not the working of property
  injection.
\<close>

lemma injected_singleton_in_di_ts:
  "resolve demo 2 0 (TString ''lazy'') [Logger] lazy_state = Returns (JRef 0) (lazy_resolved resolve)
   \<and> props (objs (store (lazy_resolved resolve)) 0) (KString ''logger'')
       = Some \<lparr>pvalue = JRef 1, configurable = True, enumerable = True, writable = True\<rparr>
   \<and> singletons (conts (lazy_resolved resolve) 0) (Some Logger) = None
   \<and> returned (resolve demo 1 0 Logger [] (lazy_resolved resolve)) = Some (JRef 2)"
  by (simp add: run_defs demo_defs lazy_state_def lazy_resolved_def Inject_def state_after_def
        eval_nat_numeral)

section \<open>When the singleton cache is written\<close>





















section \<open>Singleton scope in the copies that write the cache\<close>

text \<open>
  What \<^verbatim>\<open>src/di.ts\<close> lacks: in the copies that write the cache, the first resolution
  of a token that is not Transient leaves its result in the container's cache, and every
  later \<^verbatim>\<open>resolve\<close> on that container returns it, in the same state.
\<close>

lemma singleton_stable_in_caching_copies:
  assumes "res \<in> set caching_copies" and "keyed s" and "getProvider s c T = Some p"
    and "scope p \<noteq> Some Transient" and "res K n c T [] s = Returns v s'"
  shows "singletons (conts s' c) (Some T) = Some v" and "res K (Suc m) c T [] s' = Returns v s'"
proof -
  have tp: "token p = Some T" using getProvider_keyed [OF assms(2,3)] .
  have f: "final_state (res K n c T [] s) = Some s'" using assms(5) by simp
  have g: "getProvider s' c T = Some p"
    using cachedD(4) [OF copies_keep [OF caching_copies_sub [OF assms(1)]] f] assms(3) by simp
  have e: "singletons (conts s' c) (token p) = Some v"
    using caching_copies_cached [where res = res, OF assms(1,3,4) tp assms(5)] .
  then show "singletons (conts s' c) (Some T) = Some v" using tp by simp
  show "res K (Suc m) c T [] s' = Returns v s'"
    using caching_copies_hit [where res = res and stack = "[]", OF assms(1) _ g assms(4) tp e] by simp
qed

end
